(* ===== verification/Prelude.thy ===== *)
theory Prelude
  imports Main "HOL-Library.Word"
begin

text \<open>
  Shared ground of the development: bytes and exclusive or, loops written as folds over
  index lists, Python string and dictionary operations, and the generic lemmas the
  component theories use. Python's unbounded integers are nat or int in the models; a
  value the code keeps in 0..255 (a code word, a field element) is a byte, that is an
  8 word. Python strings are char lists.

  The collection loop_simps gathers the facts that describe a for-loop over list
  positions by what it leaves at each position.
\<close>

unbundle bit_operations_syntax

named_theorems loop_simps "positions of a list after a loop of in-place updates"

section \<open>Bytes\<close>

type_synonym byte = "8 word"

text \<open>The value of a Boolean multiple of a byte.\<close>

definition bsel :: "bool \<Rightarrow> byte \<Rightarrow> byte" where
  "bsel c y = (if c then y else 0)"

lemma bsel_simps [simp]: "bsel True y = y" "bsel False y = 0" "bsel c 0 = 0"
  by (simp_all add: bsel_def)

lemma bsel_xor:
  "bsel (a = (\<not> b)) y = bsel a y XOR bsel b y"
  "bsel c (x XOR y) = bsel c x XOR bsel c y"
  by (simp_all add: bsel_def)

lemma less_8_cases:
  "k < 8 \<longleftrightarrow> k = 0 \<or> k = 1 \<or> k = 2 \<or> k = 3 \<or> k = 4 \<or> k = 5 \<or> k = 6 \<or> k = (7::nat)"
  by auto

lemma byte_decomp:
  "y = bsel (bit y 0) 1 XOR bsel (bit y 1) 2 XOR bsel (bit y 2) 4 XOR bsel (bit y 3) 8
     XOR bsel (bit y 4) 16 XOR bsel (bit y 5) 32 XOR bsel (bit y 6) 64
     XOR bsel (bit y 7) (128 :: byte)" (is "y = ?r")
proof (rule bit_eqI)
  fix n :: nat
  assume "possible_bit TYPE(8 word) n"
  then have "n < 8" by simp
  then show "bit y n \<longleftrightarrow> bit ?r n"
    unfolding less_8_cases by (elim disjE) (simp_all add: bit_xor_iff bsel_def)
qed

lemma xor_eq_0_iff: "a XOR b = 0 \<longleftrightarrow> a = (b :: byte)"
proof
  have "a = (a XOR b) XOR b" by (simp add: xor.assoc)
  then show "a XOR b = 0 \<Longrightarrow> a = b" by simp
qed simp

section \<open>Maps on bytes that respect exclusive or\<close>

definition xor_linear :: "(byte \<Rightarrow> byte) \<Rightarrow> bool" where
  "xor_linear f \<longleftrightarrow> (\<forall>a b. f (a XOR b) = f a XOR f b)"

lemma xor_linearI: "(\<And>a b. f (a XOR b) = f a XOR f b) \<Longrightarrow> xor_linear f"
  by (simp add: xor_linear_def)

lemma xor_linearD: "xor_linear f \<Longrightarrow> f (a XOR b) = f a XOR f b"
  by (simp add: xor_linear_def)

lemma xor_linear_0: "xor_linear f \<Longrightarrow> f 0 = 0"
  using xor_linearD [of f 0 0] by simp

lemma xor_linear_bsel: "xor_linear f \<Longrightarrow> f (bsel c y) = bsel c (f y)"
  by (simp add: bsel_def xor_linear_0)

lemma xor_linear_xor: "xor_linear f \<Longrightarrow> xor_linear g \<Longrightarrow> xor_linear (\<lambda>x. f x XOR g x)"
  by (simp add: xor_linear_def ac_simps)

lemma xor_linear_id: "xor_linear (\<lambda>x. x)"
  by (simp add: xor_linear_def)

lemma xor_linear_comp: "xor_linear f \<Longrightarrow> xor_linear g \<Longrightarrow> xor_linear (\<lambda>x. f (g x))"
  by (simp add: xor_linear_def)

lemma xor_linear_pow: "xor_linear f \<Longrightarrow> xor_linear (f ^^ n)"
  by (induction n) (simp_all add: xor_linear_def)

text \<open>Two such maps that agree on the eight powers of two agree everywhere.\<close>

lemma xor_linear_ext:
  assumes f: "xor_linear f" and g: "xor_linear g"
    and "f 1 = g 1" "f 2 = g 2" "f 4 = g 4" "f 8 = g 8"
        "f 16 = g 16" "f 32 = g 32" "f 64 = g 64" "f 128 = g 128"
  shows "f y = g y"
  by (subst (1 2) byte_decomp)
     (simp add: xor_linearD [OF f] xor_linearD [OF g] xor_linear_bsel [OF f]
        xor_linear_bsel [OF g] assms)

section \<open>Iteration and loops\<close>

lemma funpow_numeral: "(f ^^ numeral k) x = f ((f ^^ pred_numeral k) x)"
  by (simp add: numeral_eq_Suc)

text \<open>
  A loop "for j in range(n): xs[k + j] ^= f(j)" of in-place exclusive ors, and what it
  leaves at every position.
\<close>

definition xor_into :: "nat \<Rightarrow> (nat \<Rightarrow> byte) \<Rightarrow> nat list \<Rightarrow> byte list \<Rightarrow> byte list" where
  "xor_into k f js xs = fold (\<lambda>j m. m[k + j := m ! (k + j) XOR f j]) js xs"

lemma length_xor_into [simp]: "length (xor_into k f js xs) = length xs"
  unfolding xor_into_def by (induction js arbitrary: xs) simp_all

lemma nth_xor_into [loop_simps]:
  assumes "k + n \<le> length xs" and "p < length xs"
  shows "xor_into k f [0..<n] xs ! p =
    (if k \<le> p \<and> p < k + n then xs ! p XOR f (p - k) else xs ! p)"
  using assms
proof (induction n)
  case 0
  then show ?case by (auto simp add: xor_into_def)
next
  case (Suc n)
  have "xor_into k f [0..<Suc n] xs =
      (xor_into k f [0..<n] xs)[k + n := xor_into k f [0..<n] xs ! (k + n) XOR f n]"
    by (simp add: xor_into_def)
  with Suc show ?case
    by (auto simp add: nth_list_update)
qed

lemma find_Some_mem: "find P xs = Some x \<Longrightarrow> x \<in> set xs \<and> P x"
  by (induction xs) (auto split: if_splits)

section \<open>Python ranges and errors\<close>

text \<open>The exceptions the modelled code can raise or catches, as values.\<close>

datatype py_error = UnicodeEncodeError | ValueError | TypeError | AttributeError | IndexError | OSError

text \<open>range(start, stop, step) as the list of the values it runs through.\<close>

definition py_range :: "int \<Rightarrow> int \<Rightarrow> int \<Rightarrow> int list" where
  "py_range start stop step =
     (let n = (if 0 < step then (stop - start + step - 1) div step
               else if step < 0 then (start - stop - step - 1) div (- step) else 0)
      in map (\<lambda>k. start + step * int k) [0..<nat n])"

lemma py_range_up: "py_range a b 1 = [a..b - 1]"
proof -
  have "map (\<lambda>k. a + int k) [0..<nat (b - a)] = [a..b - 1]"
    by (rule nth_equalityI) auto
  then show ?thesis by (simp add: py_range_def Let_def)
qed

lemma py_range_down: "py_range (int n - 1) (- 1) (- 1) = map int (rev [0..<n])"
  by (rule nth_equalityI) (auto simp: py_range_def Let_def rev_nth)

lemma py_range_empty: "a \<le> b \<Longrightarrow> py_range a b (- 1) = []"
  by (simp add: py_range_def Let_def)

lemma set_py_range_down2:
  "x \<in> set (py_range a 0 (- 2)) \<longleftrightarrow> 0 < x \<and> x \<le> a \<and> (a - x) mod 2 = 0" (is "?l \<longleftrightarrow> ?r")
proof
  assume ?r
  then obtain k where k: "a - x = 2 * k" by (auto elim: evenE simp: even_iff_mod_2_eq_zero)
  then have "x = a + (- 2) * int (nat k)" "nat k < nat ((a + 1) div 2)"
    using \<open>?r\<close> by auto
  then show ?l unfolding py_range_def Let_def
    by (auto simp: image_iff intro!: bexI [where x = "nat k"])
qed (auto simp: py_range_def Let_def)

end
