(* ===== verification/Py_Str.thy ===== *)
theory Py_Str
  imports Prelude "HOL-Library.Sublist"
begin

text \<open>
  The string methods of Python that the host uses, on lists of characters: split with and
  without a separator, join, strip, rstrip, startswith, endswith, the in operator, isdigit and
  int. The texts are ASCII, which covers what the commands, paths and headers of the host hold.
\<close>

section \<open>Predicates\<close>

definition startswith :: "string \<Rightarrow> string \<Rightarrow> bool" where
  "startswith s p \<longleftrightarrow> take (length p) s = p"

definition endswith :: "string \<Rightarrow> string \<Rightarrow> bool" where
  "endswith s p \<longleftrightarrow> length p \<le> length s \<and> drop (length s - length p) s = p"

fun contains :: "string \<Rightarrow> string \<Rightarrow> bool" where
  "contains p [] \<longleftrightarrow> p = []"
| "contains p (c # s) \<longleftrightarrow> startswith (c # s) p \<or> contains p s"

definition is_space :: "char \<Rightarrow> bool" where
  "is_space c \<longleftrightarrow> (let n = (of_char c :: nat) in (9 \<le> n \<and> n \<le> 13) \<or> (28 \<le> n \<and> n \<le> 32) \<or> n = 0x85 \<or> n = 0xA0)"

definition is_digit :: "char \<Rightarrow> bool" where
  "is_digit c \<longleftrightarrow> 48 \<le> (of_char c :: nat) \<and> (of_char c :: nat) \<le> 57"

definition isdigit :: "string \<Rightarrow> bool" where
  "isdigit s \<longleftrightarrow> s \<noteq> [] \<and> list_all is_digit s"

lemma startswith_prefix: "startswith s p \<longleftrightarrow> prefix p s"
  by (metis append_eq_conv_conj prefix_def startswith_def)

lemma startswith_append [simp]: "startswith (p @ s) p"
  by (simp add: startswith_def)

lemma startswith_Nil [simp]: "startswith s [] \<longleftrightarrow> True"
  by (simp add: startswith_def)

lemma contains_sublist: "contains p s \<longleftrightarrow> sublist p s"
  by (induction s) (auto simp: startswith_prefix sublist_Cons_right)

section \<open>Stripping\<close>

definition lstrip :: "string \<Rightarrow> string" where
  "lstrip s = dropWhile is_space s"

definition rstrip_set :: "(char \<Rightarrow> bool) \<Rightarrow> string \<Rightarrow> string" where
  "rstrip_set P s = rev (dropWhile P (rev s))"

definition strip :: "string \<Rightarrow> string" where
  "strip s = rstrip_set is_space (lstrip s)"

lemma rstrip_set_Nil [simp]: "rstrip_set P [] = []"
  by (simp add: rstrip_set_def)

lemma rstrip_set_snoc: "rstrip_set P (s @ [c]) = (if P c then rstrip_set P s else s @ [c])"
  by (simp add: rstrip_set_def)

lemma rstrip_set_idem [simp]: "rstrip_set P (rstrip_set P s) = rstrip_set P s"
  by (induction s rule: rev_induct) (simp_all add: rstrip_set_snoc)

lemma lstrip_set: "set (lstrip s) \<subseteq> set s"
  by (auto simp: lstrip_def dest: set_dropWhileD)

lemma strip_set: "set (strip s) \<subseteq> set s"
  using lstrip_set [of s] by (auto simp: strip_def rstrip_set_def dest!: set_dropWhileD)

text \<open>The truth value of an optional text.\<close>

definition nonempty :: "string option \<Rightarrow> bool" where
  "nonempty v \<longleftrightarrow> v \<noteq> None \<and> v \<noteq> Some []"

section \<open>Splitting and joining\<close>

fun split_on :: "char \<Rightarrow> string \<Rightarrow> string list" where
  "split_on sep [] = [[]]"
| "split_on sep (c # s) =
     (if c = sep then [] # split_on sep s
      else (case split_on sep s of [] \<Rightarrow> [[c]] | w # ws \<Rightarrow> (c # w) # ws))"

fun split_ws_aux :: "string \<Rightarrow> string \<Rightarrow> string list" where
  "split_ws_aux w [] = (if w = [] then [] else [rev w])"
| "split_ws_aux w (c # s) =
     (if is_space c then (if w = [] then split_ws_aux [] s else rev w # split_ws_aux [] s)
      else split_ws_aux (c # w) s)"

definition split_ws :: "string \<Rightarrow> string list" where
  "split_ws s = split_ws_aux [] s"

fun join :: "char \<Rightarrow> string list \<Rightarrow> string" where
  "join sep [] = []"
| "join sep [w] = w"
| "join sep (w # v # ws) = w @ sep # join sep (v # ws)"

lemma split_on_not_Nil [simp]: "split_on sep s \<noteq> []"
  by (cases s) (auto split: list.splits)

lemma split_on_no_sep: "w \<in> set (split_on sep s) \<Longrightarrow> sep \<notin> set w"
proof (induction s arbitrary: w)
  case (Cons c s)
  obtain v vs where "split_on sep s = v # vs" by (cases "split_on sep s") auto
  with Cons show ?case by (auto split: if_splits)
qed simp

lemma split_on_plain: "sep \<notin> set w \<Longrightarrow> split_on sep w = [w]"
  by (induction w) auto

lemma split_on_append_sep: "sep \<notin> set w \<Longrightarrow> split_on sep (w @ sep # s) = w # split_on sep s"
  by (induction w) auto

lemma split_on_join:
  assumes "ws \<noteq> []" "\<forall>w \<in> set ws. sep \<notin> set w"
  shows "split_on sep (join sep ws) = ws"
  using assms
proof (induction sep ws rule: join.induct)
  case (3 sep w v ws)
  then show ?case by (simp add: split_on_append_sep)
qed (simp_all add: split_on_plain)

lemma join_split_on: "join sep (split_on sep s) = s"
proof (induction s)
  case (Cons c s)
  obtain v vs where v: "split_on sep s = v # vs" by (cases "split_on sep s") auto
  with Cons show ?case by (cases vs) (auto)
qed simp

lemma split_ws_aux_words:
  "\<forall>c \<in> set w. \<not> is_space c \<Longrightarrow> v \<in> set (split_ws_aux w s) \<Longrightarrow> v \<noteq> [] \<and> (\<forall>c \<in> set v. \<not> is_space c)"
proof (induction s arbitrary: w)
  case Nil
  then show ?case by (cases "w = []") simp_all
next
  case (Cons c s)
  show ?case
  proof (cases "is_space c")
    case True
    show ?thesis
    proof (cases "v = rev w \<and> w \<noteq> []")
      case True
      with Cons.prems(1) show ?thesis by simp
    next
      case False
      with True Cons.prems(2) have "v \<in> set (split_ws_aux [] s)" using \<open>is_space c\<close> by (simp split: if_splits)
      then show ?thesis by (rule Cons.IH [rotated]) simp
    qed
  next
    case False
    then show ?thesis using Cons.prems by (intro Cons.IH [of "c # w"]) simp_all
  qed
qed

lemma split_ws_words: "v \<in> set (split_ws s) \<Longrightarrow> v \<noteq> [] \<and> (\<forall>c \<in> set v. \<not> is_space c)"
  unfolding split_ws_def by (rule split_ws_aux_words [of "[]"]) simp_all

text \<open>str.splitlines: a line ends at any of the line boundaries, a carriage return together with
  the line feed after it being one; no empty line after the last boundary.\<close>

definition line_end :: "char \<Rightarrow> bool" where
  "line_end c \<longleftrightarrow> (let n = (of_char c :: nat) in (10 \<le> n \<and> n \<le> 13) \<or> (28 \<le> n \<and> n \<le> 30) \<or> n = 0x85)"

fun splitlines_aux :: "string \<Rightarrow> string \<Rightarrow> string list" where
  "splitlines_aux w [] = (if w = [] then [] else [rev w])"
| "splitlines_aux w [c] = (if line_end c then [rev w] else [rev (c # w)])"
| "splitlines_aux w (c # d # s) =
     (if c = CHR 0x0D \<and> d = CHR 0x0A then rev w # splitlines_aux [] s
      else if line_end c then rev w # splitlines_aux [] (d # s)
      else splitlines_aux (c # w) (d # s))"

definition splitlines :: "string \<Rightarrow> string list" where
  "splitlines s = splitlines_aux [] s"

section \<open>Numbers\<close>

definition digit_val :: "char \<Rightarrow> int" where
  "digit_val c = of_char c - 48"

text \<open>Digits, with single underscores between them, as int accepts them.\<close>

fun int_digits :: "bool \<Rightarrow> int \<Rightarrow> string \<Rightarrow> int option" where
  "int_digits after_digit acc [] = (if after_digit then Some acc else None)"
| "int_digits after_digit acc (c # s) =
     (if is_digit c then int_digits True (10 * acc + digit_val c) s
      else if c = CHR ''_'' \<and> after_digit \<and> s \<noteq> [] \<and> is_digit (hd s) then int_digits False acc s
      else None)"

definition py_int :: "string \<Rightarrow> int option" where
  "py_int s =
     (case strip s of
        [] \<Rightarrow> None
      | c # ds \<Rightarrow>
          if c = CHR ''-'' then map_option uminus (int_digits False 0 ds)
          else if c = CHR ''+'' then int_digits False 0 ds
          else int_digits False 0 (c # ds))"

text \<open>str of a natural number.\<close>

fun str_nat :: "nat \<Rightarrow> string" where
  "str_nat n = (if n < 10 then [char_of (48 + n)] else str_nat (n div 10) @ [char_of (48 + n mod 10)])"

declare str_nat.simps [simp del]

lemma is_digit_not_space: "is_digit c \<Longrightarrow> \<not> is_space c"
  by (auto simp: is_digit_def is_space_def Let_def)

lemma int_digits_total: "list_all is_digit s \<Longrightarrow> b \<or> s \<noteq> [] \<Longrightarrow> \<exists>n. int_digits b acc s = Some n"
  by (induction s arbitrary: b acc) auto

lemma strip_no_space: "list_all (\<lambda>c. \<not> is_space c) s \<Longrightarrow> strip s = s"
proof -
  assume s: "list_all (\<lambda>c. \<not> is_space c) s"
  have "dropWhile is_space t = t" if "list_all (\<lambda>c. \<not> is_space c) t" for t
    using that by (cases t) auto
  from this [of s] this [of "rev s"] s show ?thesis
    by (simp add: strip_def lstrip_def rstrip_set_def list_all_iff)
qed

lemma strip_digits: "list_all is_digit s \<Longrightarrow> strip s = s"
  by (rule strip_no_space) (auto simp: list_all_iff dest: is_digit_not_space)

lemma py_int_isdigit: "isdigit s \<Longrightarrow> \<exists>n. py_int s = Some n"
proof -
  assume s: "isdigit s"
  then obtain c ds where c: "s = c # ds" "is_digit c" "list_all is_digit ds"
    by (cases s) (auto simp: isdigit_def)
  then have "strip s = c # ds" "c \<noteq> CHR ''-''" "c \<noteq> CHR ''+''"
    using s strip_digits [of s] by (auto simp: isdigit_def is_digit_def)
  with int_digits_total [of "c # ds" False 0] c show ?thesis
    by (simp add: py_int_def)
qed

end
