(* ===== verification/System_Env.thy ===== *)
theory System_Env
  imports Py_Str
begin

text \<open>
  The part of system_util.py about the host machine (lines 18 to 159): the base directory, the
  link file, the environment of the programs the host starts, the address of the LAN and the
  processes that hold the ports. Programs that are run and the socket are outside the code:
  what they return is an argument, None for an exception, and the commands that are run only
  for their effect are returned as a list. The argument raises says which commands raise.
\<close>

section \<open>Environment variables\<close>

type_synonym env = "string \<Rightarrow> string option"
type_synonym cmds = "string list list"

definition dirname :: "string \<Rightarrow> string" where
  "dirname p = (let h = rstrip_set (\<lambda>c. c \<noteq> CHR ''/'') p
     in if list_all (\<lambda>c. c = CHR ''/'') h then h else rstrip_set (\<lambda>c. c = CHR ''/'') h)"

text \<open>The arguments are sys.frozen, sys._MEIPASS, sys.executable and the absolute path of the file.\<close>

definition get_base_dir :: "bool \<Rightarrow> string option \<Rightarrow> string \<Rightarrow> string \<Rightarrow> string" where
  "get_base_dir frozen meipass executable file =
     (if frozen then (case meipass of Some d \<Rightarrow> d | None \<Rightarrow> dirname executable) else dirname file)"

text \<open>What write_link_file writes, when the file can be opened: the whole content of link.txt.\<close>

definition write_link_file :: "string \<Rightarrow> string" where
  "write_link_file url = strip url @ [CHR 0x0A]"

definition vars_to_remove :: "string list" where
  "vars_to_remove =
    [''LD_LIBRARY_PATH'', ''LD_PRELOAD'', ''PYTHONPATH'', ''PYTHONHOME'',
     ''QT_PLUGIN_PATH'', ''QML2_IMPORT_PATH'', ''GSETTINGS_SCHEMA_DIR'',
     ''GTK_PATH'', ''GTK_MODULES'', ''GTK_EXE_PREFIX'', ''FONTCONFIG_PATH'',
     ''FONTCONFIG_FILE'', ''APPIMAGE'', ''APPDIR'', ''ARGV0'']"

text \<open>os.path.expanduser of a path that begins with a tilde and a slash, for a home directory.\<close>

definition expanduser :: "string \<Rightarrow> string \<Rightarrow> string" where
  "expanduser home p = rstrip_set (\<lambda>c. c = CHR ''/'') home @ tl p"

definition extra_paths :: "string \<Rightarrow> string list" where
  "extra_paths home =
    [''/usr/local/bin'', ''/usr/bin'', ''/bin'', ''/usr/local/sbin'', ''/usr/sbin'', ''/sbin'',
     ''/snap/bin'', ''/var/lib/flatpak/exports/bin'',
     expanduser home ''~/.local/share/flatpak/exports/bin'',
     expanduser home ''~/.local/bin'', expanduser home ''~/bin'']"

definition standard_xdg :: "string \<Rightarrow> string list" where
  "standard_xdg home =
    [expanduser home ''~/.local/share/flatpak/exports/share'',
     ''/var/lib/flatpak/exports/share'', ''/usr/local/share'', ''/usr/share'']"

definition not_mount :: "string \<Rightarrow> bool" where
  "not_mount p \<longleftrightarrow> \<not> startswith p ''/tmp/.mount_''"

definition append_missing :: "string list \<Rightarrow> string list \<Rightarrow> string list" where
  "append_missing extra paths = fold (\<lambda>e ps. if e \<notin> set ps then ps @ [e] else ps) extra paths"

definition clean_dirs :: "string list \<Rightarrow> string \<Rightarrow> string" where
  "clean_dirs extra value =
     join (CHR '':'') (append_missing extra (filter not_mount (split_on (CHR '':'') value)))"

definition env_get :: "env \<Rightarrow> string \<Rightarrow> string" where
  "env_get env k = (case env k of Some v \<Rightarrow> v | None \<Rightarrow> '''')"

definition get_clean_host_env :: "string \<Rightarrow> string \<Rightarrow> env \<Rightarrow> env" where
  "get_clean_host_env platform home env =
     (if startswith platform ''win'' then env
      else let env = fold (\<lambda>var e. e(var := None)) vars_to_remove env;
               env = env(''PATH'' \<mapsto> clean_dirs (extra_paths home) (env_get env ''PATH''));
               xdg_data = env_get env ''XDG_DATA_DIRS''
           in if xdg_data \<noteq> '''' then env(''XDG_DATA_DIRS'' \<mapsto> clean_dirs (standard_xdg home) xdg_data)
              else env(''XDG_DATA_DIRS'' \<mapsto> join (CHR '':'') (standard_xdg home)))"

section \<open>The address of the LAN\<close>

definition virtual_ifs :: "string list" where
  "virtual_ifs = [''lo'', ''docker'', ''veth'', ''br-'', ''tun'', ''tap'', ''wg'', ''tailscale'']"

definition parse_candidate :: "string \<Rightarrow> (string \<times> string) option" where
  "parse_candidate line =
     (let parts = split_ws line
      in if line = [] \<or> length parts < 4 then None
         else let ifname = parts ! 1; ip = hd (split_on (CHR ''/'') (parts ! 3))
           in if startswith ip ''127.'' \<or> startswith ip ''198.18.'' \<or> startswith ip ''169.254.'' then None
              else if list_ex (startswith ifname) virtual_ifs then None
              else Some (ifname, ip))"

definition ip_candidates :: "string \<Rightarrow> (string \<times> string) list" where
  "ip_candidates out = List.map_filter parse_candidate (split_on (CHR 0x0A) (strip out))"

definition preferred_if :: "string \<Rightarrow> bool" where
  "preferred_if ifname \<longleftrightarrow>
     startswith ifname ''wl'' \<or> startswith ifname ''eth'' \<or> startswith ifname ''en''"

definition choose_candidate :: "(string \<times> string) list \<Rightarrow> string option" where
  "choose_candidate cands =
     (case find (\<lambda>(ifname, ip). preferred_if ifname) cands of
        Some (ifname, ip) \<Rightarrow> Some ip
      | None \<Rightarrow> (case cands of [] \<Rightarrow> None | (ifname, ip) # _ \<Rightarrow> Some ip))"

definition socket_ip :: "string option \<Rightarrow> string" where
  "socket_ip sock =
     (case sock of
        Some ip \<Rightarrow> if \<not> startswith ip ''198.18.'' \<and> \<not> startswith ip ''127.'' then ip else ''127.0.0.1''
      | None \<Rightarrow> ''127.0.0.1'')"

definition detect_lan_ip :: "string \<Rightarrow> string option \<Rightarrow> string option \<Rightarrow> string" where
  "detect_lan_ip platform ip_out sock =
     (if startswith platform ''linux'' then
        (case ip_out of
           Some out \<Rightarrow> (case choose_candidate (ip_candidates out) of Some ip \<Rightarrow> ip | None \<Rightarrow> socket_ip sock)
         | None \<Rightarrow> socket_ip sock)
      else socket_ip sock)"

section \<open>The owners of the ports\<close>

definition netstat_pid :: "nat \<Rightarrow> string \<Rightarrow> string \<Rightarrow> nat option" where
  "netstat_pid current_pid port line =
     (if contains ('':'' @ port @ '' '') line \<and> contains ''LISTENING'' line then
        let pid_str = last (split_ws (strip line))
        in if isdigit pid_str then
             (case py_int pid_str of
                Some target \<Rightarrow> if nat target \<noteq> current_pid \<and> nat target \<noteq> 0 then Some (nat target) else None
              | None \<Rightarrow> None)
           else None
      else None)"

definition taskkill :: "nat \<Rightarrow> string list" where
  "taskkill pid = [''taskkill'', ''/F'', ''/PID'', str_nat pid]"

text \<open>Runs commands in order until one raises.\<close>

fun run_all :: "(string list \<Rightarrow> bool) \<Rightarrow> cmds \<Rightarrow> cmds \<times> py_error option" where
  "run_all raises [] = ([], None)"
| "run_all raises (c # cs) =
     (if raises c then ([c], Some OSError)
      else let (ds, e) = run_all raises cs in (c # ds, e))"

definition kill_port_owners ::
  "string \<Rightarrow> nat \<Rightarrow> (string \<Rightarrow> string option) \<Rightarrow> (string list \<Rightarrow> bool) \<Rightarrow> cmds \<times> py_error option" where
  "kill_port_owners platform current_pid netstat raises =
     (if startswith platform ''win'' then
        (concat (map (\<lambda>port.
           case netstat port of
             None \<Rightarrow> []
           | Some out \<Rightarrow> fst (run_all raises
               (map taskkill (List.map_filter (netstat_pid current_pid port) (splitlines out)))))
           [''5050'', ''5055'', ''3478'']), None)
      else run_all raises (map (\<lambda>port. [''fuser'', ''-k'', port]) [''5050/tcp'', ''5055/tcp'', ''3478/tcp'', ''3478/udp'']))"

section \<open>Lemmas\<close>

lemma append_missing_simps [simp]:
  "append_missing [] ps = ps"
  "append_missing (e # es) ps = append_missing es (if e \<in> set ps then ps else ps @ [e])"
  by (simp_all add: append_missing_def)

lemma append_missing_present: "set es \<subseteq> set ps \<Longrightarrow> append_missing es ps = ps"
  by (induction es) auto

lemma set_append_missing: "set (append_missing es ps) = set es \<union> set ps"
  by (induction es arbitrary: ps) auto

lemma append_missing_prefix: "\<exists>qs. append_missing es ps = ps @ qs"
proof (induction es arbitrary: ps)
  case (Cons e es)
  then show ?case by (cases "e \<in> set ps") (auto, metis append.assoc)
qed simp

lemma split_clean_dirs:
  assumes "es \<noteq> []" "\<forall>e \<in> set es. CHR '':'' \<notin> set e"
  shows "split_on (CHR '':'') (clean_dirs es v) = append_missing es (filter not_mount (split_on (CHR '':'') v))"
  unfolding clean_dirs_def
proof (rule split_on_join)
  let ?l = "append_missing es (filter not_mount (split_on (CHR '':'') v))"
  have s: "set ?l = set es \<union> set (filter not_mount (split_on (CHR '':'') v))"
    by (rule set_append_missing)
  show "?l \<noteq> []" using s assms(1) by auto
  show "\<forall>w \<in> set ?l. CHR '':'' \<notin> set w"
    using s assms(2) split_on_no_sep by fastforce
qed

lemma clean_dirs_idem:
  assumes "es \<noteq> []" "\<forall>e \<in> set es. CHR '':'' \<notin> set e" "\<forall>e \<in> set es. not_mount e"
  shows "clean_dirs es (clean_dirs es v) = clean_dirs es v"
proof -
  let ?l = "append_missing es (filter not_mount (split_on (CHR '':'') v))"
  have "filter not_mount ?l = ?l"
    using assms(3) by (auto simp: filter_id_conv set_append_missing)
  moreover have "append_missing es ?l = ?l"
    by (rule append_missing_present) (simp add: set_append_missing)
  ultimately show ?thesis
    by (simp add: clean_dirs_def [of es "clean_dirs es v"] split_clean_dirs [OF assms(1,2)])
       (simp add: clean_dirs_def)
qed

lemma fold_unset: "fold (\<lambda>var e. e(var := None)) vs env k = (if k \<in> set vs then None else env k)"
  by (induction vs arbitrary: env) auto

lemma clean_env_vars:
  assumes "\<not> startswith platform ''win''"
  shows "get_clean_host_env platform home env k =
    (if k = ''PATH'' then Some (clean_dirs (extra_paths home) (env_get env ''PATH''))
     else if k = ''XDG_DATA_DIRS'' then
       Some (if env_get env k \<noteq> '''' then clean_dirs (standard_xdg home) (env_get env k)
             else join (CHR '':'') (standard_xdg home))
     else if k \<in> set vars_to_remove then None else env k)"
proof -
  have p: "''PATH'' \<notin> set vars_to_remove" "''XDG_DATA_DIRS'' \<notin> set vars_to_remove"
    by (simp_all add: vars_to_remove_def)
  show ?thesis
    using assms p unfolding get_clean_host_env_def Let_def
    by (auto simp: env_get_def fold_unset)
qed

lemma expanduser_no_colon: "CHR '':'' \<notin> set home \<Longrightarrow> CHR '':'' \<notin> set p \<Longrightarrow> CHR '':'' \<notin> set (expanduser home p)"
  by (cases p) (auto simp: expanduser_def rstrip_set_def dest!: set_dropWhileD)

lemma extra_no_colon:
  assumes "CHR '':'' \<notin> set home"
  shows "\<forall>e \<in> set (extra_paths home). CHR '':'' \<notin> set e" and "\<forall>e \<in> set (standard_xdg home). CHR '':'' \<notin> set e"
  using expanduser_no_colon [OF assms] by (simp_all add: extra_paths_def standard_xdg_def)

lemma extra_not_Nil [simp]: "extra_paths home \<noteq> []" "standard_xdg home \<noteq> []"
  by (simp_all add: extra_paths_def standard_xdg_def)

lemma join_Nil: "join sep ws = [] \<longleftrightarrow> ws = [] \<or> ws = [[]]"
  by (induction sep ws rule: join.induct) auto

lemma clean_xdg_default:
  assumes "CHR '':'' \<notin> set home" "\<forall>e \<in> set (standard_xdg home). not_mount e"
  shows "clean_dirs (standard_xdg home) (join (CHR '':'') (standard_xdg home)) = join (CHR '':'') (standard_xdg home)"
  using assms(2) split_on_join [OF extra_not_Nil(2) extra_no_colon(2) [OF assms(1)]]
  by (simp add: clean_dirs_def filter_id_conv append_missing_present)

lemma clean_dirs_not_Nil:
  assumes "e \<in> set es" "e \<noteq> []"
  shows "clean_dirs es v \<noteq> []"
proof
  assume "clean_dirs es v = []"
  then have "set (append_missing es (filter not_mount (split_on (CHR '':'') v))) \<subseteq> {[]}"
    by (auto simp: clean_dirs_def join_Nil)
  with assms show False by (auto simp: set_append_missing)
qed

section \<open>Properties of the environment\<close>

text \<open>C31: Outside Windows the environment handed to the programs of the host has none of the
  variables of the bundle, a PATH that keeps the directories of the old one in their order,
  without those of an AppImage mount, and lists every standard directory, and every other
  variable but XDG_DATA_DIRS as it was.\<close>

theorem clean_env_correct:
  assumes "\<not> startswith platform ''win''" "CHR '':'' \<notin> set home"
  shows "(\<forall>v \<in> set vars_to_remove. get_clean_host_env platform home env v = None) \<and>
    (\<forall>k. k \<notin> set vars_to_remove \<union> {''PATH'', ''XDG_DATA_DIRS''} \<longrightarrow>
       get_clean_host_env platform home env k = env k) \<and>
    (\<exists>path. get_clean_host_env platform home env ''PATH'' = Some path \<and>
       prefix (filter not_mount (split_on (CHR '':'') (env_get env ''PATH''))) (split_on (CHR '':'') path) \<and>
       set (split_on (CHR '':'') path) = set (extra_paths home) \<union>
         {d \<in> set (split_on (CHR '':'') (env_get env ''PATH'')). not_mount d})"
proof (intro conjI exI)
  show "\<forall>v \<in> set vars_to_remove. get_clean_host_env platform home env v = None"
    by (simp add: clean_env_vars [OF assms(1)]) (simp add: vars_to_remove_def)
  show "get_clean_host_env platform home env ''PATH'' =
      Some (clean_dirs (extra_paths home) (env_get env ''PATH''))"
    by (simp add: clean_env_vars [OF assms(1)])
  show "prefix (filter not_mount (split_on (CHR '':'') (env_get env ''PATH'')))
      (split_on (CHR '':'') (clean_dirs (extra_paths home) (env_get env ''PATH'')))"
    using append_missing_prefix by (simp add: split_clean_dirs extra_no_colon(1) [OF assms(2)] prefix_def)
qed (simp_all add: clean_env_vars [OF assms(1)] split_clean_dirs extra_no_colon(1) [OF assms(2)] set_append_missing)

theorem clean_env_correct_witness:
  "get_clean_host_env ''linux'' ''/root'' [''LD_PRELOAD'' \<mapsto> ''x''] ''LD_PRELOAD'' = None"
proof -
  have "\<not> startswith ''linux'' ''win''" "CHR '':'' \<notin> set ''/root''" by (simp_all add: startswith_def)
  from clean_env_correct [OF this, of "[''LD_PRELOAD'' \<mapsto> ''x'']", THEN conjunct1]
  show ?thesis by (rule bspec) (simp add: vars_to_remove_def)
qed

text \<open>C32: Cleaning is idempotent: a host that was itself started with a cleaned environment
  hands on the same environment, with no directory lost or listed twice.\<close>

theorem clean_env_idempotent:
  assumes "CHR '':'' \<notin> set home" "\<forall>e \<in> set (extra_paths home @ standard_xdg home). not_mount e"
  shows "get_clean_host_env platform home (get_clean_host_env platform home env) =
    get_clean_host_env platform home env"
proof (cases "startswith platform ''win''")
  case True
  then show ?thesis by (simp add: get_clean_host_env_def)
next
  case False
  let ?e = "get_clean_host_env platform home env"
  let ?x = "join (CHR '':'') (standard_xdg home)"
  have n: "''/usr/share'' \<in> set (standard_xdg home)" by (simp add: standard_xdg_def)
  have m: "\<forall>e \<in> set (extra_paths home). not_mount e" "\<forall>e \<in> set (standard_xdg home). not_mount e"
    using assms(2) by simp_all
  have x: "?x \<noteq> []" by (simp add: join_Nil standard_xdg_def)
  have p: "env_get ?e ''PATH'' = clean_dirs (extra_paths home) (env_get env ''PATH'')"
    by (simp add: env_get_def [of ?e] clean_env_vars [OF False])
  have q: "env_get ?e ''XDG_DATA_DIRS'' = (if env_get env ''XDG_DATA_DIRS'' \<noteq> []
      then clean_dirs (standard_xdg home) (env_get env ''XDG_DATA_DIRS'') else ?x)"
    by (simp add: env_get_def [of ?e] clean_env_vars [OF False])
  have "env_get ?e ''XDG_DATA_DIRS'' \<noteq> []"
    using x clean_dirs_not_Nil [OF n] by (simp add: q)
  moreover have "clean_dirs (standard_xdg home) (env_get ?e ''XDG_DATA_DIRS'') = env_get ?e ''XDG_DATA_DIRS''"
    using clean_dirs_idem [OF extra_not_Nil(2) extra_no_colon(2) [OF assms(1)] m(2)]
      clean_xdg_default [OF assms(1) m(2)] by (simp add: q)
  ultimately have "get_clean_host_env platform home ?e k = ?e k" for k
    using clean_dirs_idem [OF extra_not_Nil(1) extra_no_colon(1) [OF assms(1)] m(1)] p q
    by (auto simp: clean_env_vars [OF False])
  then show ?thesis by (rule ext)
qed

theorem clean_env_idempotent_witness:
  "get_clean_host_env ''linux'' ''/root'' (get_clean_host_env ''linux'' ''/root'' [''PATH'' \<mapsto> ''/opt:/bin'']) =
    get_clean_host_env ''linux'' ''/root'' [''PATH'' \<mapsto> ''/opt:/bin'']"
  by (rule clean_env_idempotent)
     (simp_all add: extra_paths_def standard_xdg_def expanduser_def rstrip_set_def not_mount_def startswith_def)

text \<open>Where PATH is unset or empty the cleaned PATH begins with an empty directory name,
  which stands for the current directory, before all standard directories: splitting the empty
  text gives one empty piece, and nothing drops it.\<close>

lemma clean_env_empty_path:
  assumes "\<not> startswith platform ''win''" "CHR '':'' \<notin> set home" "env_get env ''PATH'' = []"
  shows "\<exists>path. get_clean_host_env platform home env ''PATH'' = Some path \<and> hd (split_on (CHR '':'') path) = []"
proof -
  obtain qs where "append_missing (extra_paths home) [[]] = [[]] @ qs"
    using append_missing_prefix by blast
  then have "hd (append_missing (extra_paths home) [[]]) = []" by simp
  then have "hd (split_on (CHR '':'') (clean_dirs (extra_paths home) [])) = []"
    by (simp add: split_clean_dirs extra_no_colon(1) [OF assms(2)] not_mount_def startswith_def)
  then show ?thesis using assms by (simp add: clean_env_vars [OF assms(1)])
qed

lemma candidates_spec:
  assumes "(ifname, ip) \<in> set (ip_candidates out)"
  shows "\<not> startswith ip ''127.'' \<and> \<not> startswith ip ''198.18.'' \<and> \<not> startswith ip ''169.254.'' \<and>
    \<not> list_ex (startswith ifname) virtual_ifs"
  using assms
  by (auto simp: ip_candidates_def map_filter_def parse_candidate_def Let_def split: if_splits)

lemma choose_candidate_spec:
  "choose_candidate cands = Some ip \<longleftrightarrow>
    (\<exists>i < length cands. snd (cands ! i) = ip \<and>
      (if \<exists>c \<in> set cands. preferred_if (fst c)
       then preferred_if (fst (cands ! i)) \<and> (\<forall>j < i. \<not> preferred_if (fst (cands ! j))) else i = 0))"
proof (cases "find (\<lambda>(ifname, ip). preferred_if ifname) cands")
  case None
  then have "\<not> (\<exists>c \<in> set cands. preferred_if (fst c))" by (auto simp: find_None_iff)
  with None show ?thesis by (cases cands) (auto simp: choose_candidate_def)
next
  case (Some c)
  then obtain k where k: "k < length cands" "preferred_if (fst (cands ! k))" "c = cands ! k"
      "\<forall>j < k. \<not> preferred_if (fst (cands ! j))"
    by (auto simp: find_Some_iff case_prod_beta)
  then have ex: "\<exists>c \<in> set cands. preferred_if (fst c)" by (metis nth_mem)
  have u: "i = k" if "preferred_if (fst (cands ! i))" "\<forall>j < i. \<not> preferred_if (fst (cands ! j))" for i
    using that k by (metis linorder_neqE_nat)
  have "choose_candidate cands = Some ip \<longleftrightarrow> snd (cands ! k) = ip"
    using Some k(3) by (simp add: choose_candidate_def case_prod_beta)
  also have "\<dots> \<longleftrightarrow> (\<exists>i < length cands. snd (cands ! i) = ip \<and>
      preferred_if (fst (cands ! i)) \<and> (\<forall>j < i. \<not> preferred_if (fst (cands ! j))))"
    using k(1,2,4) u by blast
  finally show ?thesis using ex by simp
qed

lemma choose_candidate_None: "choose_candidate cands = None \<longleftrightarrow> cands = []"
  by (cases cands) (auto simp: choose_candidate_def split: option.splits)


definition ip_output :: string where
  "ip_output = concat (map (\<lambda>l. l @ [CHR 0x0A])
    [''2: wg0    inet 10.6.0.2/24 scope global'', ''3: docker0    inet 172.17.0.1/16 scope global'',
     ''4: ppp0    inet 10.9.0.4/32 scope global'', ''5: wlan0    inet 192.168.1.7/24 scope global''])"

lemma ip_output_candidates: "ip_candidates ip_output = [(''ppp0'', ''10.9.0.4''), (''wlan0'', ''192.168.1.7'')]"
  by code_simp


lemma run_all_subset: "set (fst (run_all raises cs)) \<subseteq> set cs"
  by (induction cs) (auto simp: case_prod_beta)

lemma run_all_error: "snd (run_all raises cs) \<noteq> None \<longleftrightarrow> (\<exists>c \<in> set cs. raises c)"
  by (induction cs) (auto simp: case_prod_beta)

text \<open>C34: On Windows kill_port_owners only ends processes that netstat shows listening on one of
  the three ports, never the host itself and never process 0, and it never raises.\<close>

theorem kill_port_owners_windows:
  assumes "c \<in> set (fst (kill_port_owners ''win32'' me netstat raises))"
  shows "snd (kill_port_owners ''win32'' me netstat raises) = None \<and>
    (\<exists>port \<in> {''5050'', ''5055'', ''3478''}. \<exists>out line pid. netstat port = Some out \<and>
      line \<in> set (splitlines out) \<and> contains ('':'' @ port @ '' '') line \<and> contains ''LISTENING'' line \<and>
      py_int (last (split_ws (strip line))) = Some (int pid) \<and> pid \<noteq> me \<and> pid \<noteq> 0 \<and> c = taskkill pid)"
proof -
  have w: "startswith ''win32'' ''win''" by (simp add: startswith_def)
  let ?k = "\<lambda>port out. fst (run_all raises (map taskkill (List.map_filter (netstat_pid me port) (splitlines out))))"
  obtain port out where p: "port \<in> {''5050'', ''5055'', ''3478''}" "netstat port = Some out"
    "c \<in> set (?k port out)"
  proof -
    obtain port where q: "port \<in> set [''5050'', ''5055'', ''3478'']"
        "c \<in> set (case netstat port of None \<Rightarrow> [] | Some out \<Rightarrow> ?k port out)"
      using assms unfolding kill_port_owners_def if_P [OF w] fst_conv set_concat set_map by blast
    show ?thesis
    proof (cases "netstat port")
      case (Some out)
      with q show ?thesis by (intro that [of port out]) simp_all
    qed (use q in simp)
  qed
  then obtain line pid where l: "line \<in> set (splitlines out)" "netstat_pid me port line = Some pid" "c = taskkill pid"
    using run_all_subset by (fastforce simp: map_filter_def)
  have f: "contains ('':'' @ port @ '' '') line \<and> contains ''LISTENING'' line \<and>
      py_int (last (split_ws (strip line))) = Some (int pid) \<and> pid \<noteq> me \<and> pid \<noteq> 0"
    using l(2) by (auto simp: netstat_pid_def Let_def split: if_splits option.splits)
  show ?thesis
    using f by (intro conjI bexI [OF _ p(1)] exI [of _ out] exI [of _ line] exI [of _ pid] p(2) l(1,3))
      (simp_all add: kill_port_owners_def w)
qed

definition netstat_line :: string where
  "netstat_line = ''  TCP  0.0.0.0:5050  0.0.0.0:0  LISTENING  4711''"

lemma netstat_line_pid:
  "splitlines netstat_line = [netstat_line]" "netstat_pid 42 ''5050'' netstat_line = Some 4711"
  by code_simp+

theorem kill_port_owners_windows_witness:
  "snd (kill_port_owners ''win32'' 42 (\<lambda>_. Some netstat_line) (\<lambda>_. False)) = None \<and>
    (\<exists>port \<in> {''5050'', ''5055'', ''3478''}. \<exists>out line pid. Some netstat_line = Some out \<and>
      line \<in> set (splitlines out) \<and> contains ('':'' @ port @ '' '') line \<and> contains ''LISTENING'' line \<and>
      py_int (last (split_ws (strip line))) = Some (int pid) \<and> pid \<noteq> 42 \<and> pid \<noteq> 0 \<and>
      taskkill 4711 = taskkill pid)"
  by (rule kill_port_owners_windows) (simp add: kill_port_owners_def startswith_def map_filter_simps netstat_line_pid)

text \<open>On Linux a missing fuser program is not caught: kill_port_owners ends with the error,
  which nothing above it handles, exactly when one of its four commands cannot be run.\<close>

lemma kill_port_owners_linux:
  "snd (kill_port_owners ''linux'' me netstat raises) \<noteq> None \<longleftrightarrow>
    (\<exists>port \<in> {''5050/tcp'', ''5055/tcp'', ''3478/tcp'', ''3478/udp''}. raises [''fuser'', ''-k'', port])"
  by (simp add: kill_port_owners_def startswith_def run_all_error)

end
