(* ===== verification/Audio.thy ===== *)
theory Audio
  imports System_Env
begin

text \<open>
  The audio part of system_util.py (lines 14 to 16 and 161 to 323): the three module variables,
  the commands that mute the microphones, the set-up and clean-up of the Computer Sound source
  and the loop that follows the volume. The functions return the pactl commands they run for
  their effect, in order; what pactl prints is an argument, None for an exception.
\<close>

section \<open>State and operations\<close>

record audio_vars =
  original_default_source :: "string option"
  remap_module_id :: "string option"
  active_audio_source_name :: "string option"

definition initial_audio :: audio_vars where
  "initial_audio = \<lparr>original_default_source = None, remap_module_id = None, active_audio_source_name = None\<rparr>"

definition is_linux :: "string \<Rightarrow> bool" where
  "is_linux platform \<longleftrightarrow> startswith platform ''linux''"

definition run_audio_cmd :: "string \<Rightarrow> string list \<Rightarrow> cmds" where
  "run_audio_cmd platform args = (if is_linux platform then [args] else [])"

definition physical_source :: "string \<Rightarrow> bool" where
  "physical_source sname \<longleftrightarrow> \<not> endswith sname ''.monitor'' \<and> sname \<noteq> ''ComputerSound''"

definition source_of_line :: "string \<Rightarrow> string option" where
  "source_of_line line =
     (if line = [] then None
      else let parts = split_ws line
        in if 2 \<le> length parts \<and> physical_source (parts ! 1) then Some (parts ! 1) else None)"

definition get_physical_mic_sources :: "string \<Rightarrow> string option \<Rightarrow> string list" where
  "get_physical_mic_sources platform listing =
     (if \<not> is_linux platform then []
      else case listing of
          None \<Rightarrow> []
        | Some out \<Rightarrow> List.map_filter source_of_line (split_on (CHR 0x0A) (strip out)))"

definition set_source_mute :: "string \<Rightarrow> bool \<Rightarrow> string list" where
  "set_source_mute s muted = [''pactl'', ''set-source-mute'', s, if muted then ''1'' else ''0'']"

definition set_physical_mics_muted :: "string \<Rightarrow> string option \<Rightarrow> audio_vars \<Rightarrow> bool \<Rightarrow> cmds" where
  "set_physical_mics_muted platform listing v muted =
     (if startswith platform ''win'' then []
      else concat (map (\<lambda>s. run_audio_cmd platform (set_source_mute s muted))
             (get_physical_mic_sources platform listing)) @
        (case original_default_source v of
           Some s \<Rightarrow> if s \<noteq> [] \<and> \<not> endswith s ''.monitor'' \<and> s \<noteq> ''ComputerSound''
             then run_audio_cmd platform (set_source_mute s muted) else []
         | None \<Rightarrow> []))"

definition load_cmd :: "string \<Rightarrow> string list" where
  "load_cmd monitor_source =
     [''pactl'', ''load-module'', ''module-remap-source'', ''source_name=ComputerSound'',
      ''master='' @ monitor_source,
      ''source_properties=device.description='' @ [CHR 0x22] @ ''Computer Sound'' @ [CHR 0x22]]"

text \<open>
  The answers of pactl get-default-source, get-default-sink and load-module, the last one with
  its return code.
\<close>

definition setup_pipewire_audio ::
  "string \<Rightarrow> string option \<Rightarrow> string option \<Rightarrow> (int \<times> string) option \<Rightarrow> audio_vars \<Rightarrow> audio_vars \<times> cmds" where
  "setup_pipewire_audio platform res_src res_sink load_res v =
     (if \<not> is_linux platform then (v, [])
      else case res_src of
          None \<Rightarrow> (v, [])
        | Some src \<Rightarrow>
            let v = v\<lparr>original_default_source := Some (strip src)\<rparr>
            in case res_sink of
                None \<Rightarrow> (v, [])
              | Some sink \<Rightarrow>
                  if strip sink = [] then (v, [])
                  else let monitor_source = strip sink @ ''.monitor''
                    in case load_res of
                        None \<Rightarrow> (v, [load_cmd monitor_source])
                      | Some (returncode, out) \<Rightarrow>
                          if returncode = 0 \<and> isdigit (strip out) then
                            (v\<lparr>remap_module_id := Some (strip out), active_audio_source_name := Some ''ComputerSound''\<rparr>,
                             load_cmd monitor_source #
                             run_audio_cmd platform [''pactl'', ''set-default-source'', ''ComputerSound''] @
                             run_audio_cmd platform (set_source_mute ''ComputerSound'' False) @
                             run_audio_cmd platform [''pactl'', ''set-source-volume'', ''ComputerSound'', ''100%''])
                          else
                            (v\<lparr>active_audio_source_name := Some monitor_source\<rparr>,
                             load_cmd monitor_source #
                             run_audio_cmd platform [''pactl'', ''set-default-source'', monitor_source] @
                             run_audio_cmd platform (set_source_mute monitor_source False)))"

definition cleanup_audio :: "string \<Rightarrow> string option \<Rightarrow> audio_vars \<Rightarrow> cmds" where
  "cleanup_audio platform listing v =
     set_physical_mics_muted platform listing v False @
     (if \<not> is_linux platform then []
      else (if nonempty (remap_module_id v)
            then run_audio_cmd platform [''pactl'', ''unload-module'', the (remap_module_id v)]
            else run_audio_cmd platform [''pactl'', ''unload-module'', ''module-remap-source'']) @
        (if nonempty (original_default_source v)
         then run_audio_cmd platform [''pactl'', ''set-default-source'', the (original_default_source v)]
         else []))"

definition get_active_audio_source :: "audio_vars \<Rightarrow> string" where
  "get_active_audio_source v =
     (if nonempty (active_audio_source_name v) then the (active_audio_source_name v) else ''ComputerSound'')"

text \<open>One copy of the volume, for what get-sink-volume printed.\<close>

definition copy_volume :: "audio_vars \<Rightarrow> string \<Rightarrow> cmds" where
  "copy_volume v out =
     (if out = [] then []
      else let parts = split_on (CHR ''/'') out
        in if 1 < length parts
           then [[''pactl'', ''set-source-volume'', get_active_audio_source v, strip (parts ! 1)]] else [])"

text \<open>
  The loop over the lines of pactl subscribe, each with the answer of get-sink-volume at that
  moment. It ends with the first exception, of the query or of the command it runs.
\<close>

fun sync_loop :: "(string list \<Rightarrow> bool) \<Rightarrow> audio_vars \<Rightarrow> (string \<times> string option) list \<Rightarrow> cmds" where
  "sync_loop raises v [] = []"
| "sync_loop raises v ((line, res) # events) =
     (if contains ''change'' line \<and> contains ''sink'' line then
        (case res of
           None \<Rightarrow> []
         | Some out \<Rightarrow> copy_volume v out @
             (if list_ex raises (copy_volume v out) then [] else sync_loop raises v events))
      else sync_loop raises v events)"

definition sync_audio_volume ::
  "string \<Rightarrow> (string list \<Rightarrow> bool) \<Rightarrow> audio_vars \<Rightarrow> string option \<Rightarrow> (string \<times> string option) list \<Rightarrow> cmds" where
  "sync_audio_volume platform raises v res events =
     (if \<not> is_linux platform then []
      else case res of
          None \<Rightarrow> []
        | Some out \<Rightarrow> copy_volume v out @
            (if list_ex raises (copy_volume v out) then [] else sync_loop raises v events))"

section \<open>Windows\<close>

text \<open>
  setup_windows_audio: the capture devices of the registry, each with the values of its
  properties, None where that key cannot be opened, and whether its state can be set. The whole
  list is None where the key of the devices cannot be opened for writing. The result are the
  devices whose state is set to 1.
\<close>

datatype reg_value = RegText string | RegOther

definition lower_char :: "char \<Rightarrow> char" where
  "lower_char c = (let n = (of_char c :: nat) in if 65 \<le> n \<and> n \<le> 90 then char_of (n + 32) else c)"

definition loopback_names :: "string list" where
  "loopback_names = [''stereo mix'', ''what u hear'', ''wave out'', ''stereo mixer'', ''cable output'']"

fun is_loopback :: "reg_value \<Rightarrow> bool" where
  "is_loopback (RegText v) \<longleftrightarrow> list_ex (\<lambda>s. contains s (map lower_char v)) loopback_names"
| "is_loopback RegOther \<longleftrightarrow> False"

definition setup_windows_audio ::
  "string \<Rightarrow> (string \<times> reg_value list option \<times> bool) list option \<Rightarrow> string list" where
  "setup_windows_audio platform devices =
     (if \<not> startswith platform ''win'' then []
      else case devices of
          None \<Rightarrow> []
        | Some ds \<Rightarrow> List.map_filter (\<lambda>(subkey_name, props, settable).
            case props of
              None \<Rightarrow> None
            | Some vals \<Rightarrow> if list_ex is_loopback vals \<and> settable then Some subkey_name else None) ds)"

section \<open>What the commands do\<close>

text \<open>
  The default source and the loaded modules (pairs of an index and a name) after a list of
  commands, as pactl documents them: set-default-source sets the default, and unload-module
  with an index or a name unloads the module of that index or all modules of that name.
\<close>

fun default_after :: "cmds \<Rightarrow> string \<Rightarrow> string" where
  "default_after [] d = d"
| "default_after (c # cs) d =
     default_after cs (if length c = 3 \<and> c ! 1 = ''set-default-source'' then c ! 2 else d)"

fun modules_after :: "cmds \<Rightarrow> (string \<times> string) list \<Rightarrow> (string \<times> string) list" where
  "modules_after [] ms = ms"
| "modules_after (c # cs) ms =
     modules_after cs (if length c = 3 \<and> c ! 1 = ''unload-module''
       then filter (\<lambda>(i, name). i \<noteq> c ! 2 \<and> name \<noteq> c ! 2) ms else ms)"

lemma default_after_append: "default_after (cs @ ds) d = default_after ds (default_after cs d)"
  by (induction cs arbitrary: d) auto

lemma modules_after_append: "modules_after (cs @ ds) ms = modules_after ds (modules_after cs ms)"
  by (induction cs arbitrary: ms) auto

lemma default_after_other:
  "(\<forall>c \<in> set cs. length c \<noteq> 3 \<or> c ! 1 \<noteq> ''set-default-source'') \<Longrightarrow> default_after cs d = d"
  by (induction cs) auto

lemma modules_after_other:
  "(\<forall>c \<in> set cs. length c \<noteq> 3 \<or> c ! 1 \<noteq> ''unload-module'') \<Longrightarrow> modules_after cs ms = ms"
  by (induction cs) auto

lemma is_linux_linux [simp]: "is_linux ''linux''" "\<not> startswith ''linux'' ''win''"
  by (simp_all add: is_linux_def startswith_def)

lemma run_audio_cmd_linux [simp]: "run_audio_cmd ''linux'' args = [args]"
  by (simp add: run_audio_cmd_def)

lemma physical_sources: "s \<in> set (get_physical_mic_sources platform listing) \<Longrightarrow> physical_source s"
  by (auto simp: get_physical_mic_sources_def map_filter_def source_of_line_def Let_def
      split: option.splits if_splits)

lemma mute_cmds:
  "c \<in> set (set_physical_mics_muted ''linux'' listing v muted) \<longleftrightarrow>
    (\<exists>s. c = set_source_mute s muted \<and> physical_source s \<and>
      (s \<in> set (get_physical_mic_sources ''linux'' listing) \<or> (s \<noteq> [] \<and> original_default_source v = Some s)))"
  using physical_sources [of _ "''linux''" listing]
  by (auto simp: set_physical_mics_muted_def physical_source_def split: option.splits)

lemma mute_shape: "c \<in> set (set_physical_mics_muted ''linux'' listing v muted) \<Longrightarrow> length c = 4"
  by (auto simp: mute_cmds set_source_mute_def)

lemma mute_after [simp]:
  "default_after (set_physical_mics_muted ''linux'' listing v muted) d = d"
  "modules_after (set_physical_mics_muted ''linux'' listing v muted) ms = ms"
  by (auto intro!: default_after_other modules_after_other dest!: mute_shape)

section \<open>Properties of the audio part\<close>

text \<open>On Linux muting the microphones touches exactly the physical sources: the commands
  are those that set the mute flag of each listed source and of the default source found at
  the start, monitors and the Computer Sound source left out, so the sound of the computer is
  never muted with the microphones.\<close>

lemma mute_physical_only:
  "set (set_physical_mics_muted ''linux'' listing v muted) =
    {[''pactl'', ''set-source-mute'', s, if muted then ''1'' else ''0''] | s.
      \<not> endswith s ''.monitor'' \<and> s \<noteq> ''ComputerSound'' \<and>
      (s \<in> set (get_physical_mic_sources ''linux'' listing) \<or> (s \<noteq> [] \<and> original_default_source v = Some s))}"
  using mute_cmds [of _ listing v muted] unfolding physical_source_def set_source_mute_def by blast

lemma restores_default:
  assumes "strip src \<noteq> []"
  shows "default_after (snd (setup_pipewire_audio ''linux'' (Some src) res_sink load_res v) @
      cleanup_audio ''linux'' listing (fst (setup_pipewire_audio ''linux'' (Some src) res_sink load_res v))) d = strip src"
proof -
  let ?v = "fst (setup_pipewire_audio ''linux'' (Some src) res_sink load_res v)"
  have "original_default_source ?v = Some (strip src)"
    by (auto simp: setup_pipewire_audio_def Let_def split: option.splits prod.splits)
  with assms show ?thesis
    by (simp add: default_after_append cleanup_audio_def nonempty_def)
qed

text \<open>After the clean-up the default source is the one found at the start, whatever became
  of the virtual source, whenever pactl named a default source at the start.\<close>

lemma cleanup_restores_default:
  assumes "strip src \<noteq> []"
  shows "default_after (snd (setup_pipewire_audio ''linux'' (Some src) res_sink load_res v) @
      cleanup_audio ''linux'' listing (fst (setup_pipewire_audio ''linux'' (Some src) res_sink load_res v))) d = strip src"
  by (rule restores_default [OF assms])

text \<open>The clean-up unloads the module the set-up loaded and no other when loading succeeded;
  when it did not succeed, or the sink or the default source could not be found, it unloads
  every module of the name module-remap-source, those the host never loaded included.\<close>

lemma cleanup_modules:
  "modules_after (snd (setup_pipewire_audio ''linux'' res_src res_sink load_res initial_audio) @
      cleanup_audio ''linux'' listing (fst (setup_pipewire_audio ''linux'' res_src res_sink load_res initial_audio))) ms =
    (case (res_src, res_sink, load_res) of
       (Some src, Some sink, Some (rc, out)) \<Rightarrow>
         if strip sink \<noteq> [] \<and> rc = 0 \<and> isdigit (strip out)
         then filter (\<lambda>(i, name). i \<noteq> strip out \<and> name \<noteq> strip out) ms
         else filter (\<lambda>(i, name). i \<noteq> ''module-remap-source'' \<and> name \<noteq> ''module-remap-source'') ms
     | _ \<Rightarrow> filter (\<lambda>(i, name). i \<noteq> ''module-remap-source'' \<and> name \<noteq> ''module-remap-source'') ms)"
proof -
  let ?r = "setup_pipewire_audio ''linux'' res_src res_sink load_res initial_audio"
  have s: "modules_after (snd ?r) ms = ms" for ms
    by (rule modules_after_other)
       (auto simp: setup_pipewire_audio_def Let_def load_cmd_def set_source_mute_def split: option.splits prod.splits if_splits)
  have u: "modules_after (cleanup_audio ''linux'' listing (fst ?r)) ms =
      (let x = (if nonempty (remap_module_id (fst ?r)) then the (remap_module_id (fst ?r)) else ''module-remap-source'')
       in filter (\<lambda>(i, name). i \<noteq> x \<and> name \<noteq> x) ms)"
    by (simp add: cleanup_audio_def modules_after_append Let_def)
  show ?thesis
    unfolding modules_after_append s u
    by (auto simp: setup_pipewire_audio_def Let_def initial_audio_def nonempty_def isdigit_def
        split: option.splits prod.splits)
qed

lemma copy_volume_shape:
  "c \<in> set (copy_volume v out) \<Longrightarrow> \<exists>vol. c = [''pactl'', ''set-source-volume'', get_active_audio_source v, vol]"
  by (auto simp: copy_volume_def Let_def split: if_splits)

text \<open>The volume loop copies, for the first query and then for every sink event, the volume
  field of the answer to the active source, in order, as long as no
  command and no query raises.\<close>

lemma sync_follows_sink:
  assumes "\<forall>c. \<not> raises c" "\<forall>(line, res) \<in> set events. res \<noteq> None"
  shows "sync_audio_volume ''linux'' raises v (Some out) events =
    concat (map (copy_volume v) (out # map (the \<circ> snd)
      (filter (\<lambda>(line, res). contains ''change'' line \<and> contains ''sink'' line) events)))"
proof -
  have l: "\<not> list_ex raises cs" for cs using assms(1) by (simp add: list_ex_iff)
  have "sync_loop raises v events = concat (map (copy_volume v) (map (the \<circ> snd)
      (filter (\<lambda>(line, res). contains ''change'' line \<and> contains ''sink'' line) events)))"
    using assms(2)
  proof (induction events)
    case (Cons e events)
    then show ?case by (cases e) (auto simp: l)
  qed simp
  then show ?thesis by (simp add: sync_audio_volume_def l)
qed

end
