(* ===== verification/Bridge_Server.thy ===== *)
theory Bridge_Server
  imports Audio Complex_Main
begin

text \<open>
  bridge_server.py: the state shared by the toolbar and the browser page, the slot for the
  action the page is to perform next, and the handler of the HTTP server through which the page
  polls the action and posts its state. Parsing a body (decode and json.loads) is the argument
  loads, None when one of the two raises; numbers of a body are finite. What is read from the
  socket is the argument payload, at least as long as the announced length.
\<close>

section \<open>Values\<close>

datatype pyval =
    PNone | PBool bool | PNum rat | PStr string | PList "pyval list" | PDict "(string \<times> pyval) list"

text \<open>Keys of a dict, with the numbers and the truth values that are equal identified.\<close>

datatype pykey = KNone | KNum rat | KStr string

fun key_of :: "pyval \<Rightarrow> pykey option" where
  "key_of PNone = Some KNone"
| "key_of (PBool b) = Some (KNum (if b then 1 else 0))"
| "key_of (PNum q) = Some (KNum q)"
| "key_of (PStr s) = Some (KStr s)"
| "key_of (PList xs) = None"
| "key_of (PDict kvs) = None"

fun py_iter :: "pyval \<Rightarrow> pyval list option" where
  "py_iter (PStr s) = Some (map (\<lambda>c. PStr [c]) s)"
| "py_iter (PList xs) = Some xs"
| "py_iter (PDict kvs) = Some (map (\<lambda>(k, v). PStr k) kvs)"
| "py_iter _ = None"

fun truthy :: "pyval \<Rightarrow> bool" where
  "truthy PNone = False"
| "truthy (PBool b) = b"
| "truthy (PNum q) = (q \<noteq> 0)"
| "truthy (PStr s) = (s \<noteq> [])"
| "truthy (PList xs) = (xs \<noteq> [])"
| "truthy (PDict kvs) = (kvs \<noteq> [])"

definition dict_get :: "(string \<times> pyval) list \<Rightarrow> string \<Rightarrow> pyval option" where
  "dict_get kvs k = map_of (rev kvs) k"

type_synonym app_dict = "pykey \<Rightarrow> pyval option"

text \<open>
  dict.update: a dict is merged; any other iterable must have elements of length two, which are
  entered one by one until one of them raises.
\<close>

fun update_pairs :: "pyval list \<Rightarrow> app_dict \<Rightarrow> app_dict \<times> py_error option" where
  "update_pairs [] d = (d, None)"
| "update_pairs (x # xs) d =
     (case py_iter x of
        None \<Rightarrow> (d, Some TypeError)
      | Some [k, v] \<Rightarrow>
          (case key_of k of
             None \<Rightarrow> (d, Some TypeError)
           | Some k \<Rightarrow> update_pairs xs (d(k \<mapsto> v)))
      | Some _ \<Rightarrow> (d, Some ValueError))"

definition dict_update :: "app_dict \<Rightarrow> pyval \<Rightarrow> app_dict \<times> py_error option" where
  "dict_update d data =
     (case data of
        PDict kvs \<Rightarrow> (fold (\<lambda>(k, v) d. d(KStr k \<mapsto> v)) kvs d, None)
      | _ \<Rightarrow> (case py_iter data of None \<Rightarrow> (d, Some TypeError) | Some xs \<Rightarrow> update_pairs xs d))"

section \<open>The state of the bridge\<close>

record bridge =
  app_state :: app_dict
  pending_action :: "string option"

definition initial_bridge :: bridge where
  "initial_bridge =
     \<lparr>app_state = [KStr ''sharing'' \<mapsto> PBool False, KStr ''paused'' \<mapsto> PBool False,
        KStr ''micMuted'' \<mapsto> PBool False, KStr ''soundMuted'' \<mapsto> PBool False],
      pending_action = Some ''start_share''\<rparr>"

definition update_app_state :: "pyval \<Rightarrow> bridge \<Rightarrow> bridge \<times> py_error option" where
  "update_app_state new_state b =
     (let (d, e) = dict_update (app_state b) new_state in (b\<lparr>app_state := d\<rparr>, e))"

definition get_pending_action :: "bridge \<Rightarrow> string option \<times> bridge" where
  "get_pending_action b = (pending_action b, b\<lparr>pending_action := None\<rparr>)"

definition set_pending_action :: "string \<Rightarrow> bridge \<Rightarrow> bridge" where
  "set_pending_action action b = b\<lparr>pending_action := Some action\<rparr>"

section \<open>The handler\<close>

datatype response_body = BNone | BAction string | BState app_dict | BOk

record response =
  status :: nat
  headers :: "(string \<times> string) list"
  body :: response_body

datatype bridge_effect =
    StateUpdated | Command "string list" | LogBrowser pyval "pyval option" | LogBrowserError

definition h_origin :: "string \<times> string" where
  "h_origin = (''Access-Control-Allow-Origin'', ''*'')"

definition h_json :: "string \<times> string" where
  "h_json = (''Content-Type'', ''application/json'')"

definition h_no_cache :: "string \<times> string" where
  "h_no_cache = (''Cache-Control'', ''no-cache, no-store, must-revalidate'')"

definition clean_path :: "string \<Rightarrow> string" where
  "clean_path path = rstrip_set (\<lambda>c. c = CHR ''/'') (hd (split_on (CHR ''?'') path))"

definition do_OPTIONS :: response where
  "do_OPTIONS = \<lparr>status = 200,
     headers = [h_origin, (''Access-Control-Allow-Methods'', ''GET, POST, OPTIONS''),
       (''Access-Control-Allow-Headers'', ''Content-Type, *''), h_no_cache], body = BNone\<rparr>"

definition ok_response :: response where
  "ok_response = \<lparr>status = 200, headers = [h_origin, h_json], body = BOk\<rparr>"

definition do_GET :: "string \<Rightarrow> bridge \<Rightarrow> response \<times> bridge" where
  "do_GET path b =
     (if clean_path path \<in> {''/poll'', ''poll''} then
        let (action, b) = get_pending_action b;
            a = (case action of Some a \<Rightarrow> if a = [] then ''none'' else a | None \<Rightarrow> ''none'')
        in (\<lparr>status = 200, headers = [h_origin, h_json, h_no_cache], body = BAction a\<rparr>, b)
      else if clean_path path \<in> {''/state'', ''state''} then
        (\<lparr>status = 200, headers = [h_origin, h_json, h_no_cache], body = BState (app_state b)\<rparr>, b)
      else (ok_response, b))"

definition content_length :: "string option \<Rightarrow> int option" where
  "content_length header = (case header of None \<Rightarrow> Some 0 | Some s \<Rightarrow> py_int s)"

definition log_request :: "pyval option \<Rightarrow> bridge_effect list" where
  "log_request parsed =
     (case parsed of
        Some (PDict kvs) \<Rightarrow>
          let msg = (case dict_get kvs ''msg'' of Some v \<Rightarrow> v | None \<Rightarrow> PStr []);
              detail = (case dict_get kvs ''detail'' of Some v \<Rightarrow> v | None \<Rightarrow> PStr [])
          in [LogBrowser msg (if truthy detail then Some detail else None)]
      | _ \<Rightarrow> [LogBrowserError])"

text \<open>
  The body of the try block for /state; mute gives the commands of set_physical_mics_muted. For
  a list or a text the test for the key is a search for an element or for a part, and indexing
  with the key raises.
\<close>

definition has_mic_key :: "pyval \<Rightarrow> bool" where
  "has_mic_key data =
     (case data of
        PDict kvs \<Rightarrow> dict_get kvs ''micMuted'' \<noteq> None
      | PList xs \<Rightarrow> PStr ''micMuted'' \<in> set xs
      | PStr s \<Rightarrow> contains ''micMuted'' s
      | _ \<Rightarrow> False)"

definition mic_value :: "pyval \<Rightarrow> pyval option" where
  "mic_value data = (case data of PDict kvs \<Rightarrow> dict_get kvs ''micMuted'' | _ \<Rightarrow> None)"

definition state_request :: "(bool \<Rightarrow> cmds) \<Rightarrow> pyval \<Rightarrow> bridge \<Rightarrow> bridge \<times> bridge_effect list" where
  "state_request mute data b =
     (let (b, e) = update_app_state data b
      in if e \<noteq> None then (b, [])
         else (b, StateUpdated #
           (if has_mic_key data then
              (case mic_value data of Some v \<Rightarrow> map Command (mute (truthy v)) | None \<Rightarrow> [])
            else [])))"

definition do_POST ::
  "(byte list \<Rightarrow> pyval option) \<Rightarrow> (bool \<Rightarrow> cmds) \<Rightarrow> string \<Rightarrow> string option \<Rightarrow> byte list \<Rightarrow> bridge \<Rightarrow>
     (py_error + response) \<times> bridge \<times> bridge_effect list" where
  "do_POST loads mute path header payload b =
     (if clean_path path \<in> {''/log'', ''log''} then
        (case content_length header of
           None \<Rightarrow> (Inl ValueError, b, [])
         | Some n \<Rightarrow> (Inr ok_response, b, if 0 < n then log_request (loads (take (nat n) payload)) else []))
      else if clean_path path \<in> {''/state'', ''state''} then
        (case content_length header of
           None \<Rightarrow> (Inl ValueError, b, [])
         | Some n \<Rightarrow>
             (Inr ok_response,
              if 0 < n then
                (case loads (take (nat n) payload) of
                   Some data \<Rightarrow> state_request mute data b
                 | None \<Rightarrow> (b, []))
              else (b, [])))
      else (Inr \<lparr>status = 404, headers = [], body = BNone\<rparr>, b, []))"

section \<open>The slot for the next action\<close>

datatype 'a slot_op = Put 'a | Take

text \<open>What a slot that holds at most one value answers to each Take.\<close>

fun slot_answers :: "'a option \<Rightarrow> 'a slot_op list \<Rightarrow> 'a option list" where
  "slot_answers held [] = []"
| "slot_answers held (Put a # ops) = slot_answers (Some a) ops"
| "slot_answers held (Take # ops) = held # slot_answers None ops"

fun run_slot :: "('a \<Rightarrow> 's \<Rightarrow> 's) \<Rightarrow> ('s \<Rightarrow> 'a option \<times> 's) \<Rightarrow> 'a slot_op list \<Rightarrow> 's \<Rightarrow> 'a option list" where
  "run_slot put tk [] s = []"
| "run_slot put tk (Put a # ops) s = run_slot put tk ops (put a s)"
| "run_slot put tk (Take # ops) s = fst (tk s) # run_slot put tk ops (snd (tk s))"

text \<open>
  The contract between the toolbar, which puts actions, and the page, which takes them: held is
  what the next Take answers.
\<close>

locale slot =
  fixes put :: "'a \<Rightarrow> 's \<Rightarrow> 's" and tk :: "'s \<Rightarrow> 'a option \<times> 's" and held :: "'s \<Rightarrow> 'a option"
  assumes tk_held: "fst (tk s) = held s"
    and held_tk: "held (snd (tk s)) = None"
    and held_put: "held (put a s) = Some a"
begin

lemma run_slot_answers: "run_slot put tk ops s = slot_answers (held s) ops"
  by (induction ops arbitrary: s rule: slot_answers.induct) (simp_all add: tk_held held_tk held_put)

lemma last_put_wins: "run_slot put tk (ops @ [Put a, Put b, Take]) s = run_slot put tk (ops @ [Put b, Take]) s"
  by (induction ops arbitrary: s rule: slot_answers.induct) (simp_all add: tk_held held_put)

end

interpretation bridge_slot: slot set_pending_action get_pending_action pending_action
  by unfold_locales (simp_all add: set_pending_action_def get_pending_action_def)

section \<open>Runs of the bridge\<close>

text \<open>What reaches the bridge: the toolbar sets an action, the page sends a request.\<close>

datatype bridge_op = SetAction string | Get string | Post string "string option" "byte list"

definition bridge_step ::
  "(byte list \<Rightarrow> pyval option) \<Rightarrow> (bool \<Rightarrow> cmds) \<Rightarrow> bridge_op \<Rightarrow> bridge \<Rightarrow> response list \<times> bridge" where
  "bridge_step loads mute op b =
     (case op of
        SetAction a \<Rightarrow> ([], set_pending_action a b)
      | Get path \<Rightarrow> (case do_GET path b of (r, b) \<Rightarrow> ([r], b))
      | Post path header payload \<Rightarrow>
          (case do_POST loads mute path header payload b of
             (Inr r, b, es) \<Rightarrow> ([r], b) | (Inl e, b, es) \<Rightarrow> ([], b)))"

fun run_bridge ::
  "(byte list \<Rightarrow> pyval option) \<Rightarrow> (bool \<Rightarrow> cmds) \<Rightarrow> bridge_op list \<Rightarrow> bridge \<Rightarrow> response list \<times> bridge" where
  "run_bridge loads mute [] b = ([], b)"
| "run_bridge loads mute (op # ops) b =
     (let (rs, b) = bridge_step loads mute op b; (rs', b) = run_bridge loads mute ops b in (rs @ rs', b))"

definition poll_actions :: "response list \<Rightarrow> string list" where
  "poll_actions rs = List.map_filter (\<lambda>r. case body r of BAction a \<Rightarrow> Some a | _ \<Rightarrow> None) rs"

definition slot_ops_of :: "bridge_op list \<Rightarrow> string slot_op list" where
  "slot_ops_of ops = List.map_filter (\<lambda>op. case op of SetAction a \<Rightarrow> Some (Put a)
     | Get path \<Rightarrow> if clean_path path \<in> {''/poll'', ''poll''} then Some Take else None
     | Post path header payload \<Rightarrow> None) ops"

definition answer_text :: "string option \<Rightarrow> string" where
  "answer_text a = (case a of Some a \<Rightarrow> if a = [] then ''none'' else a | None \<Rightarrow> ''none'')"

lemma update_app_state_pending [simp]: "pending_action (fst (update_app_state data b)) = pending_action b"
  by (simp add: update_app_state_def case_prod_beta)

lemma state_request_pending [simp]: "pending_action (fst (state_request mute data b)) = pending_action b"
  by (simp add: state_request_def case_prod_beta Let_def)

lemma do_POST_pending [simp]: "pending_action (fst (snd (do_POST loads mute path header payload b))) = pending_action b"
  by (simp add: do_POST_def split: option.splits)

lemma do_POST_no_action:
  "fst (do_POST loads mute path header payload b) = Inr r \<Longrightarrow> body r = BOk \<or> body r = BNone"
  by (auto simp: do_POST_def ok_response_def split: if_splits option.splits)

lemma poll_actions_simps [simp]:
  "poll_actions [] = []" "poll_actions (rs @ rs') = poll_actions rs @ poll_actions rs'"
  by (simp_all add: poll_actions_def map_filter_def)

lemma bridge_step_poll:
  "poll_actions (fst (bridge_step loads mute op b)) =
     map answer_text (run_slot set_pending_action get_pending_action (slot_ops_of [op]) b)"
  "pending_action (snd (bridge_step loads mute op b)) =
     (case slot_ops_of [op] of [Put a] \<Rightarrow> Some a | [Take] \<Rightarrow> None | _ \<Rightarrow> pending_action b)"
proof -
  show "poll_actions (fst (bridge_step loads mute op b)) =
     map answer_text (run_slot set_pending_action get_pending_action (slot_ops_of [op]) b)"
  proof (cases op)
    case (Post path header payload)
    then show ?thesis
      using do_POST_no_action [of loads mute path header payload b]
      by (cases "do_POST loads mute path header payload b"; cases "fst (do_POST loads mute path header payload b)")
         (auto simp: bridge_step_def slot_ops_of_def map_filter_def poll_actions_def split: response_body.splits)
  qed (auto simp: bridge_step_def slot_ops_of_def map_filter_def poll_actions_def do_GET_def ok_response_def
         get_pending_action_def answer_text_def)
  show "pending_action (snd (bridge_step loads mute op b)) =
     (case slot_ops_of [op] of [Put a] \<Rightarrow> Some a | [Take] \<Rightarrow> None | _ \<Rightarrow> pending_action b)"
  proof (cases op)
    case (Post path header payload)
    then show ?thesis
      using do_POST_pending [of loads mute path header payload b]
      by (cases "do_POST loads mute path header payload b"; cases "fst (do_POST loads mute path header payload b)")
         (auto simp: bridge_step_def slot_ops_of_def map_filter_def)
  qed (auto simp: bridge_step_def slot_ops_of_def map_filter_def do_GET_def get_pending_action_def set_pending_action_def)
qed

lemma run_bridge_polls:
  "poll_actions (fst (run_bridge loads mute ops b)) = map answer_text (slot_answers (pending_action b) (slot_ops_of ops))"
proof (induction ops arbitrary: b)
  case (Cons op ops)
  have s: "slot_ops_of (op # ops) = slot_ops_of [op] @ slot_ops_of ops"
    by (simp add: slot_ops_of_def map_filter_def)
  have "slot_ops_of [op] = [] \<or> (\<exists>a. slot_ops_of [op] = [Put a]) \<or> slot_ops_of [op] = [Take]"
    by (cases op) (auto simp: slot_ops_of_def map_filter_def)
  with Cons show ?case
    using bridge_step_poll [of loads mute op b]
    by (auto simp: s case_prod_beta Let_def bridge_slot.run_slot_answers)
qed (simp add: slot_ops_of_def map_filter_def)

section \<open>Properties of the bridge\<close>

lemma fold_update_dict:
  "fold (\<lambda>(k, v) d. d(KStr k \<mapsto> v)) kvs d =
    (\<lambda>k. case k of KStr s \<Rightarrow> (case dict_get kvs s of Some v \<Rightarrow> Some v | None \<Rightarrow> d k) | _ \<Rightarrow> d k)"
proof (induction kvs arbitrary: d)
  case Nil
  show ?case by (rule ext) (simp add: dict_get_def split: pykey.splits)
next
  case (Cons kv kvs)
  obtain k v where kv: "kv = (k, v)" by (cases kv)
  show ?case
    unfolding kv fold_simps prod.case Cons
    by (rule ext) (simp add: dict_get_def map_add_def split: pykey.splits option.splits)
qed


text \<open>C29: A state report that is a JSON object is merged into the state, key by key, the
  last value of a key winning and all other keys kept; the toolbar is notified once, and the
  microphones are muted or unmuted exactly when the report has a micMuted entry, by its truth
  value. The pending action is untouched.\<close>

theorem state_report_merged:
  assumes "clean_path path \<in> {''/state'', ''state''}" "content_length header = Some n" "0 < n"
    "loads (take (nat n) payload) = Some (PDict kvs)"
  shows "do_POST loads mute path header payload b =
    (Inr ok_response,
     b\<lparr>app_state := \<lambda>k. case k of KStr s \<Rightarrow> (case dict_get kvs s of Some v \<Rightarrow> Some v | None \<Rightarrow> app_state b k)
         | _ \<Rightarrow> app_state b k\<rparr>,
     StateUpdated # (case dict_get kvs ''micMuted'' of Some v \<Rightarrow> map Command (mute (truthy v)) | None \<Rightarrow> []))"
proof -
  have "\<not> clean_path path \<in> {''/log'', ''log''}" using assms(1) by auto
  with assms show ?thesis
    by (simp add: do_POST_def state_request_def update_app_state_def dict_update_def fold_update_dict
        has_mic_key_def mic_value_def split: option.splits)
qed

definition sample_loads :: "byte list \<Rightarrow> pyval option" where
  "sample_loads bs = (if bs = [123, 125] then Some (PDict [(''sharing'', PBool True), (''micMuted'', PBool True)])
     else if bs = [91, 93] then Some (PList [PList [PStr ''sharing'', PBool True], PNum 5]) else None)"

theorem state_report_merged_witness:
  "do_POST sample_loads (\<lambda>m. [[if m then ''1'' else ''0'']]) ''/state/?t=5'' (Some ''2'') [123, 125] initial_bridge =
    (Inr ok_response,
     initial_bridge\<lparr>app_state := \<lambda>k. case k of KStr s \<Rightarrow>
         (case dict_get [(''sharing'', PBool True), (''micMuted'', PBool True)] s of Some v \<Rightarrow> Some v
          | None \<Rightarrow> app_state initial_bridge k) | _ \<Rightarrow> app_state initial_bridge k\<rparr>,
     StateUpdated # (case dict_get [(''sharing'', PBool True), (''micMuted'', PBool True)] ''micMuted'' of
        Some v \<Rightarrow> map Command [[if truthy v then ''1'' else ''0'']] | None \<Rightarrow> []))"
  by (rule state_report_merged [where n = 2 and mute = "\<lambda>m. [[if m then ''1'' else ''0'']]"]) code_simp+

text \<open>Only a state report with a body that parses to something iterable changes the bridge
  on a POST, and it never changes the pending action; every other POST, malformed JSON, scalar
  bodies and other paths included, leaves the bridge as it was and produces no command.\<close>

lemma post_changes_only_by_report:
  assumes "fst (snd (do_POST loads mute path header payload b)) \<noteq> b \<or>
    (\<exists>c. Command c \<in> set (snd (snd (do_POST loads mute path header payload b))))"
  shows "clean_path path \<in> {''/state'', ''state''} \<and>
    (\<exists>n data. content_length header = Some n \<and> 0 < n \<and> loads (take (nat n) payload) = Some data \<and> py_iter data \<noteq> None) \<and>
    pending_action (fst (snd (do_POST loads mute path header payload b))) = pending_action b"
proof -
  have u: "update_app_state data b = (b, Some TypeError)" if "py_iter data = None" for data
    using that by (cases data) (simp_all add: update_app_state_def dict_update_def)
  have i: "py_iter data \<noteq> None" if "state_request mute data b \<noteq> (b, [])" for data
  proof
    assume "py_iter data = None"
    from u [OF this] that show False by (simp add: state_request_def)
  qed
  have l: "Command c \<notin> set (log_request p)" for c p
    by (auto simp: log_request_def Let_def split: option.splits pyval.splits)
  have "clean_path path \<in> {''/state'', ''state''} \<and>
    (\<exists>n data. content_length header = Some n \<and> 0 < n \<and> loads (take (nat n) payload) = Some data \<and>
       state_request mute data b \<noteq> (b, []))"
    using assms l by (auto simp: do_POST_def split: if_splits option.splits)
  then show ?thesis using i by (metis do_POST_pending)
qed

text \<open>A report whose body is a JSON array is taken as a list of pairs: the pairs before the
  first bad element are entered into the state although the update then raises, the exception
  is swallowed, the answer is 200, and the toolbar is not told of the change.\<close>

lemma array_report_half_applied:
  assumes "clean_path path \<in> {''/state'', ''state''}" "content_length header = Some n" "0 < n"
    "loads (take (nat n) payload) = Some (PList (map (\<lambda>(k, v). PList [PStr k, v]) kvs @ [PNum q]))"
  shows "do_POST loads mute path header payload b =
    (Inr ok_response, b\<lparr>app_state := fold (\<lambda>(k, v) d. d(KStr k \<mapsto> v)) kvs (app_state b)\<rparr>, [])"
proof -
  have "update_pairs (map (\<lambda>(k, v). PList [PStr k, v]) kvs @ [PNum q]) d =
      (fold (\<lambda>(k, v) d. d(KStr k \<mapsto> v)) kvs d, Some TypeError)" for d
    by (induction kvs arbitrary: d) auto
  moreover have "\<not> clean_path path \<in> {''/log'', ''log''}" using assms(1) by auto
  ultimately show ?thesis
    using assms by (simp add: do_POST_def state_request_def update_app_state_def dict_update_def)
qed

text \<open>A POST to the log or the state gets no answer at all exactly when its Content-Length
  is not a number, because int raises outside the try block; every other POST is answered, with
  404 only for other paths.\<close>

lemma post_answers:
  "(case fst (do_POST loads mute path header payload b) of
      Inl e \<Rightarrow> e = ValueError \<and> content_length header = None \<and> clean_path path \<in> {''/log'', ''log'', ''/state'', ''state''}
    | Inr r \<Rightarrow> (content_length header \<noteq> None \<or> status r = 404) \<and>
        (status r = 404 \<longleftrightarrow> clean_path path \<notin> {''/log'', ''log'', ''/state'', ''state''}) \<and>
        (status r = 200 \<longleftrightarrow> status r \<noteq> 404))"
  by (auto simp: do_POST_def ok_response_def split: option.splits)

end
