(* ===== verification/Gui_Overlay.thy ===== *)
theory Gui_Overlay
  imports Bridge_Server
begin

text \<open>
  gui_overlay.py: what the toolbar shows (texts, styles, enabledness, visibility, positions), the
  handlers of its buttons and of the mouse, and update_gui_state, which renders the state of the
  bridge. Layout, fonts and shadows are not modelled. A handler returns the toolbar, the bridge
  and the audio commands it runs. mute stands for set_physical_mics_muted with the sources of
  the moment, env for the platform and the audio variables.
\<close>

section \<open>State\<close>

datatype widget = Grip | BtnShare | BtnPause | BtnSound | BtnMic | BtnQr | BtnExit

record look =
  caption :: string
  style :: string

record toolbar =
  is_collapsed :: bool
  drag_pos :: "int \<times> int"
  win_pos :: "int \<times> int"
  press_pos :: "(int \<times> int) option"
  visible :: "widget \<Rightarrow> bool"
  qr_visible :: bool
  qr_pos :: "int \<times> int"
  share :: look
  pause :: look
  pause_enabled :: bool
  sound :: look
  mic :: look
  indicator_color :: string

definition plain :: "string \<Rightarrow> look" where
  "plain t = \<lparr>caption = t, style = []\<rparr>"

definition red :: string where
  "red = ''background-color: #cc241d; color: white;''"

definition yellow :: string where
  "yellow = ''background-color: #fabd2f; color: black;''"

definition init_toolbar :: toolbar where
  "init_toolbar =
     \<lparr>is_collapsed = False, drag_pos = (0, 0), win_pos = (30, 80), press_pos = None,
      visible = (\<lambda>w. True), qr_visible = False, qr_pos = (0, 0),
      share = plain ''Share'', pause = plain ''Pause'', pause_enabled = False,
      sound = plain ''Computer Sound'', mic = plain ''Mic: On'', indicator_color = ''#b8bb26''\<rparr>"

section \<open>Rendering the state\<close>

definition state_get :: "app_dict \<Rightarrow> string \<Rightarrow> pyval" where
  "state_get d k = (case d (KStr k) of Some v \<Rightarrow> v | None \<Rightarrow> PBool False)"

definition flag :: "app_dict \<Rightarrow> string \<Rightarrow> bool" where
  "flag d k = truthy (state_get d k)"

definition update_gui_state :: "(bool \<Rightarrow> cmds) \<Rightarrow> app_dict \<Rightarrow> toolbar \<Rightarrow> toolbar \<times> cmds" where
  "update_gui_state mute state t =
     (let t = (if flag state ''sharing'' then
                 let t = t\<lparr>share := \<lparr>caption = ''Stop'', style = red\<rparr>, pause_enabled := True\<rparr>
                 in if flag state ''paused'' then
                      t\<lparr>pause := \<lparr>caption = ''Resume'', style = yellow\<rparr>, indicator_color := ''#fabd2f''\<rparr>
                    else t\<lparr>pause := plain ''Pause'', indicator_color := ''#fe8019''\<rparr>
               else t\<lparr>share := plain ''Share'', pause := plain ''Pause'', pause_enabled := False,
                      indicator_color := ''#b8bb26''\<rparr>);
          t = (if flag state ''soundMuted'' then t\<lparr>sound := \<lparr>caption = ''Sound Muted'', style = red\<rparr>\<rparr>
               else t\<lparr>sound := plain ''Computer Sound''\<rparr>);
          t = (if flag state ''micMuted'' then t\<lparr>mic := \<lparr>caption = ''Mic: Off'', style = red\<rparr>\<rparr>
               else t\<lparr>mic := plain ''Mic: On''\<rparr>)
      in (t, mute (flag state ''micMuted'')))"

section \<open>Handlers of the buttons\<close>

definition toggle_share :: "toolbar \<Rightarrow> bridge \<Rightarrow> toolbar \<times> bridge" where
  "toggle_share t b =
     (if flag (app_state b) ''sharing'' then
        (t\<lparr>share := (share t)\<lparr>caption := ''Stopping...''\<rparr>\<rparr>, set_pending_action ''stop_share'' b)
      else (t\<lparr>share := (share t)\<lparr>caption := ''Starting...''\<rparr>\<rparr>, set_pending_action ''start_share'' b))"

definition trigger_pause :: "bridge \<Rightarrow> bridge" where
  "trigger_pause b = set_pending_action ''toggle_pause'' b"

definition toggle_sound ::
  "string \<Rightarrow> audio_vars \<Rightarrow> (bool \<Rightarrow> cmds) \<Rightarrow> toolbar \<Rightarrow> bridge \<Rightarrow> toolbar \<times> bridge \<times> cmds" where
  "toggle_sound platform v mute t b =
     (let new_muted = (\<not> flag (app_state b) ''soundMuted'');
          b = fst (update_app_state (PDict [(''soundMuted'', PBool new_muted)]) b);
          b = set_pending_action ''toggle_sound'' b;
          (t, cs) = update_gui_state mute (app_state b) t
      in (t, b, cs @ (if is_linux platform
            then run_audio_cmd platform (set_source_mute (get_active_audio_source v) new_muted) else [])))"

definition toggle_mic ::
  "(bool \<Rightarrow> cmds) \<Rightarrow> toolbar \<Rightarrow> bridge \<Rightarrow> toolbar \<times> bridge \<times> cmds" where
  "toggle_mic mute t b =
     (let new_mic_muted = (\<not> flag (app_state b) ''micMuted'');
          b = fst (update_app_state (PDict [(''micMuted'', PBool new_mic_muted)]) b);
          b = set_pending_action ''toggle_mic'' b;
          (t, cs) = update_gui_state mute (app_state b) t
      in (t, b, cs @ mute new_mic_muted))"

text \<open>The argument is the width of the toolbar.\<close>

definition toggle_qr :: "int \<Rightarrow> toolbar \<Rightarrow> toolbar" where
  "toggle_qr width t =
     (if qr_visible t then t\<lparr>qr_visible := False\<rparr>
      else t\<lparr>qr_pos := (fst (win_pos t) + width + 10, snd (win_pos t)), qr_visible := True\<rparr>)"

definition hide_qr :: "toolbar \<Rightarrow> toolbar" where
  "hide_qr t = t\<lparr>qr_visible := False\<rparr>"

definition toggle_collapse :: "toolbar \<Rightarrow> toolbar" where
  "toggle_collapse t =
     (let t = t\<lparr>is_collapsed := \<not> is_collapsed t\<rparr>;
          t = t\<lparr>visible := \<lambda>w. \<not> is_collapsed t\<rparr>
      in if is_collapsed t \<and> qr_visible t then t\<lparr>qr_visible := False\<rparr> else t)"

section \<open>Handlers of the mouse\<close>

definition diff :: "int \<times> int \<Rightarrow> int \<times> int \<Rightarrow> int \<times> int" where
  "diff p q = (fst p - fst q, snd p - snd q)"

definition manhattan :: "int \<times> int \<Rightarrow> int" where
  "manhattan p = \<bar>fst p\<bar> + \<bar>snd p\<bar>"

text \<open>OverlayToolbar.mousePressEvent and mouseMoveEvent, for the left button alone.\<close>

definition window_press :: "int \<times> int \<Rightarrow> toolbar \<Rightarrow> toolbar" where
  "window_press g t = t\<lparr>drag_pos := diff g (win_pos t)\<rparr>"

definition window_move :: "bool \<Rightarrow> int \<times> int \<Rightarrow> toolbar \<Rightarrow> toolbar" where
  "window_move left_only g t = (if left_only then t\<lparr>win_pos := diff g (drag_pos t)\<rparr> else t)"

text \<open>
  The same for the indicator. A point is true as a condition unless it is the origin, and a
  release that counts as a click toggles the collapsed state.
\<close>

definition indicator_press :: "bool \<Rightarrow> int \<times> int \<Rightarrow> toolbar \<Rightarrow> toolbar" where
  "indicator_press left g t = (if left then window_press g (t\<lparr>press_pos := Some g\<rparr>) else t)"

definition indicator_move :: "bool \<Rightarrow> int \<times> int \<Rightarrow> toolbar \<Rightarrow> toolbar" where
  "indicator_move left_only g t = window_move left_only g t"

definition indicator_release :: "bool \<Rightarrow> int \<times> int \<Rightarrow> toolbar \<Rightarrow> toolbar" where
  "indicator_release left g t =
     (case press_pos t of
        Some p \<Rightarrow>
          if left \<and> p \<noteq> (0, 0) then
            (let t = (if manhattan (diff g p) < 6 then toggle_collapse t else t)
             in t\<lparr>press_pos := None\<rparr>)
          else t
      | None \<Rightarrow> t)"

section \<open>Events\<close>

datatype gui_event =
    ClickShare | ClickPause | ClickSound | ClickMic | ClickQr | ClickCard | StateSignal
  | WindowPress "int \<times> int" | Press "int \<times> int" | Move "int \<times> int" | Release "int \<times> int"

record host_env =
  platform :: string
  audio :: audio_vars
  width :: int

definition gui_enabled :: "gui_event \<Rightarrow> toolbar \<Rightarrow> bool" where
  "gui_enabled e t =
     (case e of
        ClickShare \<Rightarrow> visible t BtnShare
      | ClickPause \<Rightarrow> visible t BtnPause \<and> pause_enabled t
      | ClickSound \<Rightarrow> visible t BtnSound
      | ClickMic \<Rightarrow> visible t BtnMic
      | ClickQr \<Rightarrow> visible t BtnQr
      | ClickCard \<Rightarrow> qr_visible t
      | _ \<Rightarrow> True)"

definition gui_handle :: "host_env \<Rightarrow> (bool \<Rightarrow> cmds) \<Rightarrow> gui_event \<Rightarrow> toolbar \<times> bridge \<Rightarrow> (toolbar \<times> bridge) \<times> cmds" where
  "gui_handle env mute e s =
     (case s of (t, b) \<Rightarrow>
       (case e of
          ClickShare \<Rightarrow> (toggle_share t b, [])
        | ClickPause \<Rightarrow> ((t, trigger_pause b), [])
        | ClickSound \<Rightarrow> (case toggle_sound (platform env) (audio env) mute t b of (t, b, cs) \<Rightarrow> ((t, b), cs))
        | ClickMic \<Rightarrow> (case toggle_mic mute t b of (t, b, cs) \<Rightarrow> ((t, b), cs))
        | ClickQr \<Rightarrow> ((toggle_qr (width env) t, b), [])
        | ClickCard \<Rightarrow> ((hide_qr t, b), [])
        | StateSignal \<Rightarrow> (case update_gui_state mute (app_state b) t of (t, cs) \<Rightarrow> ((t, b), cs))
        | WindowPress g \<Rightarrow> ((window_press g t, b), [])
        | Press g \<Rightarrow> ((indicator_press True g t, b), [])
        | Move g \<Rightarrow> ((indicator_move True g t, b), [])
        | Release g \<Rightarrow> ((indicator_release True g t, b), [])))"

text \<open>
  Runs of the toolbar: any enabled event of the user, the delivery of a state signal, and any
  change the server threads make to the bridge in between.
\<close>

inductive gui_reach :: "host_env \<Rightarrow> (bool \<Rightarrow> cmds) \<Rightarrow> toolbar \<times> bridge \<Rightarrow> bool" for env mute where
  start: "gui_reach env mute (init_toolbar, initial_bridge)"
| event: "gui_reach env mute (t, b) \<Longrightarrow> gui_enabled e t \<Longrightarrow> gui_reach env mute (fst (gui_handle env mute e (t, b)))"
| server: "gui_reach env mute (t, b) \<Longrightarrow> gui_reach env mute (t, b')"

section \<open>Lemmas\<close>

text \<open>What the four flags of a state look like.\<close>

definition shows_state :: "bool \<Rightarrow> bool \<Rightarrow> bool \<Rightarrow> bool \<Rightarrow> toolbar \<Rightarrow> bool" where
  "shows_state sh pa so mi t \<longleftrightarrow>
     caption (share t) = (if sh then ''Stop'' else ''Share'') \<and>
     caption (pause t) = (if sh \<and> pa then ''Resume'' else ''Pause'') \<and>
     pause_enabled t = sh \<and>
     caption (sound t) = (if so then ''Sound Muted'' else ''Computer Sound'') \<and>
     caption (mic t) = (if mi then ''Mic: Off'' else ''Mic: On'') \<and>
     indicator_color t = (if \<not> sh then ''#b8bb26'' else if pa then ''#fabd2f'' else ''#fe8019'')"

lemma update_gui_shows:
  "shows_state (flag d ''sharing'') (flag d ''paused'') (flag d ''soundMuted'') (flag d ''micMuted'')
    (fst (update_gui_state mute d t))"
  by (simp add: shows_state_def update_gui_state_def Let_def plain_def)

lemma update_gui_other [simp]:
  "is_collapsed (fst (update_gui_state mute d t)) = is_collapsed t"
  "visible (fst (update_gui_state mute d t)) = visible t"
  "qr_visible (fst (update_gui_state mute d t)) = qr_visible t"
  "win_pos (fst (update_gui_state mute d t)) = win_pos t"
  "drag_pos (fst (update_gui_state mute d t)) = drag_pos t"
  "press_pos (fst (update_gui_state mute d t)) = press_pos t"
  by (simp_all add: update_gui_state_def Let_def)

lemma update_gui_cmds [simp]: "snd (update_gui_state mute d t) = mute (flag d ''micMuted'')"
  by (simp add: update_gui_state_def Let_def)

lemma app_state_set_pending [simp]: "app_state (set_pending_action a b) = app_state b"
  by (simp add: set_pending_action_def)

lemma app_state_update_one [simp]:
  "app_state (fst (update_app_state (PDict [(k, v)]) b)) = (app_state b)(KStr k \<mapsto> v)"
  by (simp add: update_app_state_def dict_update_def)

lemma flag_upd [simp]: "flag (d(KStr k \<mapsto> v)) k' = (if k' = k then truthy v else flag d k')"
  by (simp add: flag_def state_get_def)

definition toolbar_inv :: "toolbar \<Rightarrow> bool" where
  "toolbar_inv t \<longleftrightarrow>
     (\<forall>w. visible t w \<longleftrightarrow> \<not> is_collapsed t) \<and> (is_collapsed t \<longrightarrow> \<not> qr_visible t) \<and>
     (pause_enabled t \<longleftrightarrow> indicator_color t \<noteq> ''#b8bb26'') \<and>
     (caption (pause t) = ''Resume'' \<longleftrightarrow> indicator_color t = ''#fabd2f'') \<and>
     (style (mic t) = red \<longleftrightarrow> caption (mic t) = ''Mic: Off'') \<and>
     (style (sound t) = red \<longleftrightarrow> caption (sound t) = ''Sound Muted'')"

lemma toolbar_inv_update: "toolbar_inv t \<Longrightarrow> toolbar_inv (fst (update_gui_state mute d t))"
  by (simp add: toolbar_inv_def update_gui_state_def Let_def plain_def red_def)

lemma toolbar_inv_collapse: "toolbar_inv t \<Longrightarrow> toolbar_inv (toggle_collapse t)"
  by (simp add: toolbar_inv_def toggle_collapse_def Let_def)

lemma toolbar_inv_positions:
  "toolbar_inv (t\<lparr>press_pos := p\<rparr>) = toolbar_inv t" "toolbar_inv (t\<lparr>win_pos := q\<rparr>) = toolbar_inv t"
  "toolbar_inv (t\<lparr>drag_pos := q\<rparr>) = toolbar_inv t"
  by (simp_all add: toolbar_inv_def)

lemma toolbar_inv_handle:
  assumes "toolbar_inv t" "gui_enabled e t"
  shows "toolbar_inv (fst (fst (gui_handle env mute e (t, b))))"
proof (cases e)
  case ClickQr
  with assms show ?thesis
    by (simp add: gui_handle_def gui_enabled_def toggle_qr_def toolbar_inv_def)
next
  case (Release g)
  then show ?thesis using assms
    by (auto simp: gui_handle_def indicator_release_def toolbar_inv_positions toolbar_inv_collapse Let_def split: option.splits)
next
  case ClickShare
  then show ?thesis using assms by (simp add: gui_handle_def toggle_share_def toolbar_inv_def)
next
  case ClickCard
  then show ?thesis using assms by (simp add: gui_handle_def hide_qr_def toolbar_inv_def)
qed (use assms toolbar_inv_update in \<open>simp_all add: gui_handle_def toggle_sound_def toggle_mic_def Let_def case_prod_beta
       indicator_press_def indicator_move_def window_press_def window_move_def toolbar_inv_positions\<close>)

inductive_cases gui_reachE: "gui_reach env mute s"

section \<open>Properties of the toolbar\<close>

text \<open>C30: Whatever the user clicks and whatever the server threads do in between: the buttons
  are visible exactly when the toolbar is not collapsed, a collapsed toolbar shows no QR card,
  the pause button is enabled exactly when the dot has not its idle colour and offers to resume
  exactly when the dot is yellow, and the sound and microphone buttons are red exactly when
  they say they are muted.\<close>

theorem toolbar_invariant:
  assumes "gui_reach env mute s"
  shows "(\<forall>w. visible (fst s) w \<longleftrightarrow> \<not> is_collapsed (fst s)) \<and> (is_collapsed (fst s) \<longrightarrow> \<not> qr_visible (fst s)) \<and>
     (pause_enabled (fst s) \<longleftrightarrow> indicator_color (fst s) \<noteq> ''#b8bb26'') \<and>
     (caption (pause (fst s)) = ''Resume'' \<longleftrightarrow> indicator_color (fst s) = ''#fabd2f'') \<and>
     (style (mic (fst s)) = red \<longleftrightarrow> caption (mic (fst s)) = ''Mic: Off'') \<and>
     (style (sound (fst s)) = red \<longleftrightarrow> caption (sound (fst s)) = ''Sound Muted'')"
  using assms
proof (induction rule: gui_reach.induct)
  case start
  show ?case by (simp add: init_toolbar_def plain_def red_def)
next
  case (event t b e)
  then show ?case using toolbar_inv_handle [of t e env mute b] by (simp add: toolbar_inv_def)
qed simp

definition sample_env :: host_env where
  "sample_env = \<lparr>platform = ''linux'', audio = initial_audio, width = 400\<rparr>"

lemma gui_reach_qr_mic:
  "gui_reach sample_env (\<lambda>m. []) (fst (gui_handle sample_env (\<lambda>m. []) ClickMic (init_toolbar, initial_bridge)))"
  by (rule gui_reach.event, rule gui_reach.start) (simp add: gui_enabled_def init_toolbar_def)

theorem toolbar_invariant_witness:
  "style (mic (fst (fst (gui_handle sample_env (\<lambda>m. []) ClickMic (init_toolbar, initial_bridge))))) = red"
  using toolbar_invariant [OF gui_reach_qr_mic]
  by (simp add: gui_handle_def toggle_mic_def update_gui_state_def Let_def case_prod_beta initial_bridge_def flag_def state_get_def)

lemma fold_moves:
  "gs \<noteq> [] \<Longrightarrow> fold (indicator_move True) gs t = t\<lparr>win_pos := diff (last gs) (drag_pos t)\<rparr>"
  by (induction gs arbitrary: t) (auto simp: indicator_move_def window_move_def)

text \<open>A press on the dot, any path of the pointer and a release: the toolbar ends where the
  pointer has carried it, keeping its offset to the pointer, and it collapses or expands exactly
  when the release is less than six pixels (in the Manhattan distance) from the press.\<close>

lemma indicator_drag_or_click:
  assumes "g0 \<noteq> (0, 0)" "gs \<noteq> []"
  shows "let t' = indicator_release True g (fold (indicator_move True) gs (indicator_press True g0 t)) in
    diff (win_pos t') (win_pos t) = diff (last gs) g0 \<and> press_pos t' = None \<and>
    (is_collapsed t' \<noteq> is_collapsed t \<longleftrightarrow> manhattan (diff g g0) < 6)"
  unfolding fold_moves [OF assms(2)]
  using assms(1)
  by (auto simp: indicator_release_def indicator_press_def window_press_def toggle_collapse_def Let_def diff_def)

text \<open>The microphone button: the shared flag is inverted and no other one changes, the page
  is told to toggle, the toolbar shows the new flags at once, and the microphones of the machine
  are set to the new flag, by the rendering and once more by the handler.\<close>

lemma toggle_mic_correct:
  "case toggle_mic mute t b of (t', b', cs) \<Rightarrow>
     flag (app_state b') ''micMuted'' = (\<not> flag (app_state b) ''micMuted'') \<and>
     (\<forall>k. k \<noteq> KStr ''micMuted'' \<longrightarrow> app_state b' k = app_state b k) \<and>
     pending_action b' = Some ''toggle_mic'' \<and>
     shows_state (flag (app_state b) ''sharing'') (flag (app_state b) ''paused'') (flag (app_state b) ''soundMuted'')
       (\<not> flag (app_state b) ''micMuted'') t' \<and>
     cs = mute (\<not> flag (app_state b) ''micMuted'') @ mute (\<not> flag (app_state b) ''micMuted'')"
proof -
  let ?b = "set_pending_action ''toggle_mic'' (fst (update_app_state
      (PDict [(''micMuted'', PBool (\<not> flag (app_state b) ''micMuted''))]) b))"
  show ?thesis
    using update_gui_shows [of "app_state ?b" mute t]
    by (simp add: toggle_mic_def Let_def case_prod_beta) (simp add: set_pending_action_def)
qed

end
