(* ===== verification/Failsafe_Page.thy ===== *)
theory Failsafe_Page
  imports Py_Str "HOL-Library.AList"
begin

text \<open>
  The broadcasting page that write_failsafe_client writes (ui_failsafe.py, the script in lines
  204 to 887, in host mode): the variables of the script, the media tracks they refer to, the
  senders of the peer connections, and one definition per function. A function is cut at its
  await points: what it waits for is an entry of the list waiting, and the rest runs when that
  entry is resolved, with the outcome the browser gives as an argument. The captures return one
  video track, as getDisplayMedia does, and any number of audio tracks. The
  content of session descriptions is not modelled; a sender records its track and whether the
  offer of its connection was made with it. The overlay of the page, its message and the button
  below it are kept as they are shown. The candidates of a session and the viewer mode are
  in Failsafe_Viewer, the parameters of the link in Page_Link.
\<close>

section \<open>State\<close>

datatype media = Video | Audio

record track =
  kind :: media
  enabled :: bool
  live :: bool

type_synonym stream = "nat list"
type_synonym sender = "nat \<times> bool"
type_synonym report = "(string \<times> bool) list"

datatype await = Display | Loopback stream | MicRequest

datatype ws_msg = MCreate | MShare | MStopShare | MHostOffer string stream

record page =
  ws_open :: bool
  tracks :: "nat \<Rightarrow> track"
  next_track :: nat
  activeStream :: "stream option"
  micStream :: "stream option"
  isMicMuted :: bool
  isSoundMuted :: bool
  isPaused :: bool
  pauseInterval :: "nat option"
  timers :: "nat list"
  next_timer :: nat
  frozenVideoTrack :: "nat option"
  peerConnections :: "(string \<times> sender list) list"
  on_ended :: "nat list"
  waiting :: "await list"
  sent :: "ws_msg list"
  reports :: "report list"
  badge :: string
  page_overlay :: bool
  page_message :: "string \<times> string"
  start_button :: bool
  hiddenHostVideo :: "stream option"

definition init_page :: page where
  "init_page =
     \<lparr>ws_open = False, tracks = (\<lambda>_. \<lparr>kind = Audio, enabled = False, live = False\<rparr>), next_track = 0,
      activeStream = None, micStream = None, isMicMuted = False, isSoundMuted = False, isPaused = False,
      pauseInterval = None, timers = [], next_timer = 0, frozenVideoTrack = None, peerConnections = [],
      on_ended = [], waiting = [], sent = [], reports = [], badge = [], page_overlay = True,
      page_message = (''ScreenShare Stream'', ''Waiting for screen transmission to start...''), start_button = False,
      hiddenHostVideo = None\<rparr>"

section \<open>Tracks and senders\<close>

definition new_tracks :: "media \<Rightarrow> nat \<Rightarrow> page \<Rightarrow> stream \<times> page" where
  "new_tracks k n p =
     ([next_track p..<next_track p + n],
      p\<lparr>tracks := \<lambda>t. if next_track p \<le> t \<and> t < next_track p + n then \<lparr>kind = k, enabled = True, live = True\<rparr>
           else tracks p t,
         next_track := next_track p + n\<rparr>)"

definition set_enabled :: "bool \<Rightarrow> stream \<Rightarrow> page \<Rightarrow> page" where
  "set_enabled b ts p = p\<lparr>tracks := \<lambda>t. if t \<in> set ts then (tracks p t)\<lparr>enabled := b\<rparr> else tracks p t\<rparr>"

definition stop_tracks :: "stream \<Rightarrow> page \<Rightarrow> page" where
  "stop_tracks ts p = p\<lparr>tracks := \<lambda>t. if t \<in> set ts then (tracks p t)\<lparr>live := False\<rparr> else tracks p t\<rparr>"

definition of_kind :: "page \<Rightarrow> media \<Rightarrow> stream \<Rightarrow> stream" where
  "of_kind p k ts = filter (\<lambda>t. kind (tracks p t) = k) ts"

fun replace_first :: "(nat \<Rightarrow> bool) \<Rightarrow> nat \<Rightarrow> sender list \<Rightarrow> sender list" where
  "replace_first P t [] = []"
| "replace_first P t ((s, n) # ss) = (if P s then (t, n) # ss else (s, n) # replace_first P t ss)"

definition replace_video :: "nat \<Rightarrow> page \<Rightarrow> page" where
  "replace_video t p = p\<lparr>peerConnections :=
     map (apsnd (replace_first (\<lambda>s. kind (tracks p s) = Video) t)) (peerConnections p)\<rparr>"

definition add_sender :: "nat \<Rightarrow> page \<Rightarrow> page" where
  "add_sender t p = p\<lparr>peerConnections := map (apsnd (\<lambda>ss. ss @ [(t, False)])) (peerConnections p)\<rparr>"

text \<open>One round of the loop in startShare; n is the number of senders when the loop began.\<close>

definition attach :: "page \<Rightarrow> nat \<Rightarrow> nat \<Rightarrow> sender list \<Rightarrow> sender list" where
  "attach p n t ss =
     (if list_ex (\<lambda>(s, _). kind (tracks p s) = kind (tracks p t)) (take n ss)
      then replace_first (\<lambda>s. kind (tracks p s) = kind (tracks p t)) t ss
      else ss @ [(t, False)])"

section \<open>Reports\<close>

definition post_report :: "report \<Rightarrow> page \<Rightarrow> page" where
  "post_report r p = p\<lparr>reports := reports p @ [r]\<rparr>"

definition ws_send :: "ws_msg \<Rightarrow> page \<Rightarrow> page" where
  "ws_send m p = (if ws_open p then p\<lparr>sent := sent p @ [m]\<rparr> else p)"

definition updateHostBadge :: "page \<Rightarrow> page" where
  "updateHostBadge p = p\<lparr>badge :=
     (if activeStream p \<noteq> None then
        (if isPaused p then ''Broadcasting (PAUSED)''
         else ''Broadcasting ('' @ (if isSoundMuted p then ''Sound Off'' else ''Sound On'') @ '', '' @
           (if isMicMuted p then ''Mic Off'' else ''Mic On'') @ '')'')
      else ''Broadcasting Standby'')\<rparr>"

definition full_report :: "page \<Rightarrow> report" where
  "full_report p = [(''sharing'', True), (''paused'', isPaused p), (''micMuted'', isMicMuted p), (''soundMuted'', isSoundMuted p)]"

section \<open>The functions of the page\<close>

definition startShare :: "page \<Rightarrow> page" where
  "startShare p = p\<lparr>waiting := waiting p @ [Display]\<rparr>"

definition finish_share :: "stream \<Rightarrow> page \<Rightarrow> page" where
  "finish_share combined p =
     (let p = p\<lparr>activeStream := Some combined, isPaused := False, page_overlay := False\<rparr>;
          p = updateHostBadge p;
          p = p\<lparr>hiddenHostVideo := Some combined\<rparr>;
          p = p\<lparr>peerConnections := map (apsnd (\<lambda>ss. fold (attach p (length ss)) combined ss)) (peerConnections p)\<rparr>;
          p = ws_send MShare p;
          p = post_report (full_report p) p
      in p\<lparr>on_ended := on_ended p @ take 1 (of_kind p Video combined)\<rparr>)"

text \<open>
  The rest of startShare after the captures of lines 602 to 629; None when all three were
  refused.
\<close>

definition display_done :: "nat option \<Rightarrow> page \<Rightarrow> page" where
  "display_done r p =
     (case r of
        None \<Rightarrow> post_report [(''sharing'', False), (''paused'', False)] p
      | Some n \<Rightarrow>
          (case new_tracks Video 1 p of (vs, p) \<Rightarrow>
            if 0 < n then
              (case new_tracks Audio n p of (as, p) \<Rightarrow>
                finish_share (vs @ as) (set_enabled (\<not> isSoundMuted p) as p))
            else p\<lparr>waiting := waiting p @ [Loopback vs]\<rparr>))"

definition loopback_done :: "nat option \<Rightarrow> stream \<Rightarrow> page \<Rightarrow> page" where
  "loopback_done r vs p =
     (case r of
        None \<Rightarrow> finish_share vs p
      | Some n \<Rightarrow>
          (case new_tracks Audio n p of (as, p) \<Rightarrow>
            finish_share (vs @ as) (set_enabled (\<not> isSoundMuted p) as p)))"

text \<open>
  What the freezing of the picture in lines 729 to 758 comes to: the canvas gives a track, it
  cannot be captured, or an exception comes before or after the track was assigned.
\<close>

datatype freeze = Frozen | NoCapture | FreezeError | FreezeErrorLate

definition freeze_frame :: "freeze \<Rightarrow> page \<Rightarrow> page" where
  "freeze_frame f p =
     (let v = take 1 (of_kind p Video (the (activeStream p)))
      in case f of
           Frozen \<Rightarrow>
             (case new_tracks Video 1 p of (ts, p) \<Rightarrow>
               let p = p\<lparr>frozenVideoTrack := Some (hd ts), pauseInterval := Some (next_timer p),
                 timers := next_timer p # timers p, next_timer := next_timer p + 1\<rparr>
               in replace_video (hd ts) p)
         | NoCapture \<Rightarrow> set_enabled False v p
         | FreezeError \<Rightarrow> set_enabled False v p
         | FreezeErrorLate \<Rightarrow>
             (case new_tracks Video 1 p of (ts, p) \<Rightarrow> set_enabled False v (p\<lparr>frozenVideoTrack := Some (hd ts)\<rparr>)))"

definition clear_pause :: "page \<Rightarrow> page" where
  "clear_pause p =
     (let p = (case pauseInterval p of
                 Some i \<Rightarrow> p\<lparr>timers := filter (\<lambda>j. j \<noteq> i) (timers p), pauseInterval := None\<rparr>
               | None \<Rightarrow> p)
      in case frozenVideoTrack p of
           Some t \<Rightarrow> (stop_tracks [t] p)\<lparr>frozenVideoTrack := None\<rparr>
         | None \<Rightarrow> p)"

definition togglePause :: "freeze \<Rightarrow> page \<Rightarrow> page" where
  "togglePause f p =
     (case activeStream p of
        None \<Rightarrow> p
      | Some s \<Rightarrow>
          if of_kind p Video s = [] then p
          else
            let p = p\<lparr>isPaused := \<not> isPaused p\<rparr>;
                p = (if isPaused p then freeze_frame f p
                     else let p = clear_pause p; v = hd (of_kind p Video s)
                       in replace_video v (set_enabled True [v] p));
                p = updateHostBadge p
            in post_report (full_report p) p)"

definition report_mic :: "page \<Rightarrow> page" where
  "report_mic p = (let p = updateHostBadge p in post_report [(''micMuted'', isMicMuted p)] p)"

definition setMicEnabled :: "bool \<Rightarrow> page \<Rightarrow> page" where
  "setMicEnabled en p =
     (let p = p\<lparr>isMicMuted := \<not> en\<rparr>
      in if en then
           (case micStream p of
              None \<Rightarrow> p\<lparr>waiting := waiting p @ [MicRequest]\<rparr>
            | Some s \<Rightarrow> report_mic (set_enabled True (of_kind p Audio s) p))
         else
           report_mic (case micStream p of
              None \<Rightarrow> p
            | Some s \<Rightarrow> (stop_tracks (of_kind p Audio s) (set_enabled False (of_kind p Audio s) p))\<lparr>micStream := None\<rparr>))"

text \<open>The rest of setMicEnabled after getUserMedia, which returns one track or is refused.\<close>

definition mic_done :: "bool \<Rightarrow> page \<Rightarrow> page" where
  "mic_done granted p =
     report_mic
       (if granted then
          (case new_tracks Audio 1 p of (ts, p) \<Rightarrow>
            let p = p\<lparr>micStream := Some ts\<rparr>
            in case activeStream p of
                 None \<Rightarrow> p
               | Some s \<Rightarrow> add_sender (hd ts) (p\<lparr>activeStream := Some (s @ ts)\<rparr>))
        else p)"

definition toggleSoundMute :: "page \<Rightarrow> page" where
  "toggleSoundMute p =
     (let p = p\<lparr>isSoundMuted := \<not> isSoundMuted p\<rparr>;
          p = (case activeStream p of
                 None \<Rightarrow> p
               | Some s \<Rightarrow>
                   let ts = filter (\<lambda>t. case micStream p of None \<Rightarrow> True | Some m \<Rightarrow> t \<notin> set (of_kind p Audio m))
                     (of_kind p Audio s)
                   in set_enabled (\<not> isSoundMuted p) ts p);
          p = updateHostBadge p
      in post_report [(''soundMuted'', isSoundMuted p)] p)"

definition stopShare :: "page \<Rightarrow> page" where
  "stopShare p =
     (let p = clear_pause p;
          p = (case activeStream p of Some s \<Rightarrow> (stop_tracks s p)\<lparr>activeStream := None\<rparr> | None \<Rightarrow> p);
          p = (case micStream p of Some s \<Rightarrow> (stop_tracks s p)\<lparr>micStream := None\<rparr> | None \<Rightarrow> p);
          p = p\<lparr>isPaused := False\<rparr>;
          p = ws_send MStopShare p;
          p = p\<lparr>page_overlay := True, start_button := True, page_message := (''Host Broadcaster Mode'',
                ''Screen sharing is stopped. Click below to start broadcasting:'')\<rparr>;
          p = updateHostBadge p
      in post_report [(''sharing'', False), (''paused'', False)] p)"

text \<open>The branch of onmessage for a new viewer: the senders its offer is made with.\<close>

definition hostsession :: "string \<Rightarrow> page \<Rightarrow> page" where
  "hostsession sid p =
     (let ts = (case activeStream p of
                  None \<Rightarrow> []
                | Some s \<Rightarrow>
                    (if isPaused p \<and> frozenVideoTrack p \<noteq> None then [the (frozenVideoTrack p)]
                     else take 1 (of_kind p Video s)) @ of_kind p Audio s)
      in ws_send (MHostOffer sid ts)
           (p\<lparr>peerConnections := AList.update sid (map (\<lambda>t. (t, True)) ts) (peerConnections p)\<rparr>))"

definition endshare :: "string \<Rightarrow> page \<Rightarrow> page" where
  "endshare sid p = p\<lparr>peerConnections := AList.delete sid (peerConnections p)\<rparr>"

text \<open>onopen and onclose of the signalling socket, in host mode.\<close>

definition ws_onopen :: "page \<Rightarrow> page" where
  "ws_onopen p = startShare
     ((ws_send MCreate (p\<lparr>ws_open := True, badge := ''Connected''\<rparr>))
       \<lparr>page_message := (''Host Broadcaster Mode'', ''Broadcasting desktop video and audio in real-time:''), start_button := True\<rparr>)"

definition ws_onclose :: "page \<Rightarrow> page" where
  "ws_onclose p = p\<lparr>ws_open := False, badge := ''Reconnecting...''\<rparr>"

text \<open>The answer of a poll.\<close>

definition poll_action :: "freeze \<Rightarrow> string \<Rightarrow> page \<Rightarrow> page" where
  "poll_action f action p =
     (if action = ''start_share'' then startShare p
      else if action = ''stop_share'' then stopShare p
      else if action = ''toggle_pause'' then togglePause f p
      else if action = ''toggle_mic'' then setMicEnabled (isMicMuted p) p
      else if action = ''toggle_sound'' then toggleSoundMute p
      else p)"

section \<open>Events\<close>

datatype event =
    WsOpen | WsClose | Session string | EndShare string | StartButton | Action freeze string
  | DisplayDone "nat option" | LoopbackDone "nat option" stream | MicDone bool | Ended nat

definition possible :: "event \<Rightarrow> page \<Rightarrow> bool" where
  "possible e p =
     (case e of
        WsOpen \<Rightarrow> \<not> ws_open p
      | WsClose \<Rightarrow> ws_open p
      | Session sid \<Rightarrow> ws_open p
      | EndShare sid \<Rightarrow> ws_open p
      | DisplayDone r \<Rightarrow> Display \<in> set (waiting p)
      | LoopbackDone r vs \<Rightarrow> Loopback vs \<in> set (waiting p)
      | MicDone g \<Rightarrow> MicRequest \<in> set (waiting p)
      | Ended t \<Rightarrow> t \<in> set (on_ended p) \<and> live (tracks p t)
      | StartButton \<Rightarrow> page_overlay p \<and> start_button p
      | _ \<Rightarrow> True)"

definition resolve :: "await \<Rightarrow> page \<Rightarrow> page" where
  "resolve a p = p\<lparr>waiting := remove1 a (waiting p)\<rparr>"

definition handle :: "event \<Rightarrow> page \<Rightarrow> page" where
  "handle e p =
     (case e of
        WsOpen \<Rightarrow> ws_onopen p
      | WsClose \<Rightarrow> ws_onclose p
      | Session sid \<Rightarrow> hostsession sid p
      | EndShare sid \<Rightarrow> endshare sid p
      | StartButton \<Rightarrow> startShare p
      | Action f a \<Rightarrow> poll_action f a p
      | DisplayDone r \<Rightarrow> display_done r (resolve Display p)
      | LoopbackDone r vs \<Rightarrow> loopback_done r vs (resolve (Loopback vs) p)
      | MicDone g \<Rightarrow> mic_done g (resolve MicRequest p)
      | Ended t \<Rightarrow> stopShare (stop_tracks [t] p))"

inductive page_reach :: "page \<Rightarrow> bool" where
  init: "page_reach init_page"
| step: "page_reach p \<Longrightarrow> possible e p \<Longrightarrow> page_reach (handle e p)"

fun run_page :: "event list \<Rightarrow> page \<Rightarrow> page" where
  "run_page [] p = p"
| "run_page (e # es) p = run_page es (handle e p)"

fun all_possible :: "event list \<Rightarrow> page \<Rightarrow> bool" where
  "all_possible [] p \<longleftrightarrow> True"
| "all_possible (e # es) p \<longleftrightarrow> possible e p \<and> all_possible es (handle e p)"

lemma page_reach_run: "page_reach p \<Longrightarrow> all_possible es p \<Longrightarrow> page_reach (run_page es p)"
  by (induction es arbitrary: p) (auto intro: page_reach.step)

section \<open>The fields after each function\<close>

lemma new_tracks_fields:
  "fst (new_tracks k n p) = [next_track p..<next_track p + n]"
  "kind (tracks (snd (new_tracks k n p)) t) = (if next_track p \<le> t \<and> t < next_track p + n then k else kind (tracks p t))"
  "next_track (snd (new_tracks k n p)) = next_track p + n"
  "activeStream (snd (new_tracks k n p)) = activeStream p" "isPaused (snd (new_tracks k n p)) = isPaused p"
  "waiting (snd (new_tracks k n p)) = waiting p" "peerConnections (snd (new_tracks k n p)) = peerConnections p"
  "frozenVideoTrack (snd (new_tracks k n p)) = frozenVideoTrack p"
  "tracks (snd (new_tracks k n (p\<lparr>isPaused := b\<rparr>))) = tracks (snd (new_tracks k n p))"
  by (simp_all add: new_tracks_def cong: if_cong)

lemma stop_tracks_fields [simp]:
  "kind (tracks (stop_tracks ts p) t) = kind (tracks p t)" "enabled (tracks (stop_tracks ts p) t) = enabled (tracks p t)"
  "next_track (stop_tracks ts p) = next_track p" "activeStream (stop_tracks ts p) = activeStream p"
  "micStream (stop_tracks ts p) = micStream p" "isPaused (stop_tracks ts p) = isPaused p"
  "waiting (stop_tracks ts p) = waiting p" "peerConnections (stop_tracks ts p) = peerConnections p"
  "frozenVideoTrack (stop_tracks ts p) = frozenVideoTrack p" "pauseInterval (stop_tracks ts p) = pauseInterval p"
  "isMicMuted (stop_tracks ts p) = isMicMuted p" "isSoundMuted (stop_tracks ts p) = isSoundMuted p"
  "reports (stop_tracks ts p) = reports p" "sent (stop_tracks ts p) = sent p" "ws_open (stop_tracks ts p) = ws_open p"
  "live (tracks (stop_tracks ts p) t) \<longleftrightarrow> live (tracks p t) \<and> t \<notin> set ts"
  by (auto simp: stop_tracks_def)

lemma set_enabled_fields [simp]:
  "kind (tracks (set_enabled b ts p) t) = kind (tracks p t)" "live (tracks (set_enabled b ts p) t) = live (tracks p t)"
  "enabled (tracks (set_enabled b ts p) t) = (if t \<in> set ts then b else enabled (tracks p t))"
  "next_track (set_enabled b ts p) = next_track p" "activeStream (set_enabled b ts p) = activeStream p"
  "micStream (set_enabled b ts p) = micStream p" "isPaused (set_enabled b ts p) = isPaused p"
  "waiting (set_enabled b ts p) = waiting p" "peerConnections (set_enabled b ts p) = peerConnections p"
  "frozenVideoTrack (set_enabled b ts p) = frozenVideoTrack p" "isMicMuted (set_enabled b ts p) = isMicMuted p"
  "isSoundMuted (set_enabled b ts p) = isSoundMuted p" "reports (set_enabled b ts p) = reports p"
  by (simp_all add: set_enabled_def)

lemma replace_video_fields [simp]:
  "tracks (replace_video v p) = tracks p" "next_track (replace_video v p) = next_track p"
  "activeStream (replace_video v p) = activeStream p" "micStream (replace_video v p) = micStream p"
  "isMicMuted (replace_video v p) = isMicMuted p" "isSoundMuted (replace_video v p) = isSoundMuted p"
  "reports (replace_video v p) = reports p" "ws_open (replace_video v p) = ws_open p"
  "isPaused (replace_video v p) = isPaused p" "waiting (replace_video v p) = waiting p"
  "frozenVideoTrack (replace_video v p) = frozenVideoTrack p"
  "peerConnections (replace_video v p) =
    map (apsnd (replace_first (\<lambda>s. kind (tracks p s) = Video) v)) (peerConnections p)"
  by (simp_all add: replace_video_def)

lemma clear_pause_fields [simp]:
  "kind (tracks (clear_pause p) t) = kind (tracks p t)" "enabled (tracks (clear_pause p) t) = enabled (tracks p t)"
  "next_track (clear_pause p) = next_track p" "activeStream (clear_pause p) = activeStream p"
  "micStream (clear_pause p) = micStream p" "isPaused (clear_pause p) = isPaused p"
  "waiting (clear_pause p) = waiting p" "peerConnections (clear_pause p) = peerConnections p"
  "frozenVideoTrack (clear_pause p) = None" "pauseInterval (clear_pause p) = None"
  "isMicMuted (clear_pause p) = isMicMuted p" "isSoundMuted (clear_pause p) = isSoundMuted p"
  "reports (clear_pause p) = reports p" "sent (clear_pause p) = sent p" "ws_open (clear_pause p) = ws_open p"
  "live (tracks (clear_pause p) t) \<longleftrightarrow> live (tracks p t) \<and> frozenVideoTrack p \<noteq> Some t"
  by (auto simp: clear_pause_def Let_def split: option.splits)

lemma stopShare_fields [simp]:
  "kind (tracks (stopShare p) t) = kind (tracks p t)" "enabled (tracks (stopShare p) t) = enabled (tracks p t)"
  "next_track (stopShare p) = next_track p" "activeStream (stopShare p) = None" "micStream (stopShare p) = None"
  "isPaused (stopShare p) = False" "waiting (stopShare p) = waiting p" "peerConnections (stopShare p) = peerConnections p"
  "frozenVideoTrack (stopShare p) = None" "pauseInterval (stopShare p) = None"
  "isMicMuted (stopShare p) = isMicMuted p" "isSoundMuted (stopShare p) = isSoundMuted p"
  "reports (stopShare p) = reports p @ [[(''sharing'', False), (''paused'', False)]]"
  "sent (stopShare p) = sent p @ (if ws_open p then [MStopShare] else [])"
  "live (tracks (stopShare p) t) \<longleftrightarrow> live (tracks p t) \<and> frozenVideoTrack p \<noteq> Some t \<and>
     (\<forall>s. activeStream p = Some s \<longrightarrow> t \<notin> set s) \<and> (\<forall>s. micStream p = Some s \<longrightarrow> t \<notin> set s)"
  by (auto simp: stopShare_def Let_def post_report_def updateHostBadge_def ws_send_def split: option.splits)

lemma basic_fields [simp]:
  "activeStream (post_report r p) = activeStream p" "micStream (post_report r p) = micStream p"
  "isMicMuted (post_report r p) = isMicMuted p" "isSoundMuted (post_report r p) = isSoundMuted p"
  "isPaused (post_report r p) = isPaused p" "frozenVideoTrack (post_report r p) = frozenVideoTrack p"
  "waiting (post_report r p) = waiting p" "ws_open (post_report r p) = ws_open p"
  "tracks (post_report r p) = tracks p" "next_track (post_report r p) = next_track p"
  "peerConnections (post_report r p) = peerConnections p" "reports (post_report r p) = reports p @ [r]"
  "activeStream (updateHostBadge p) = activeStream p" "micStream (updateHostBadge p) = micStream p"
  "isMicMuted (updateHostBadge p) = isMicMuted p" "isSoundMuted (updateHostBadge p) = isSoundMuted p"
  "isPaused (updateHostBadge p) = isPaused p" "frozenVideoTrack (updateHostBadge p) = frozenVideoTrack p"
  "waiting (updateHostBadge p) = waiting p" "ws_open (updateHostBadge p) = ws_open p"
  "tracks (updateHostBadge p) = tracks p" "next_track (updateHostBadge p) = next_track p"
  "peerConnections (updateHostBadge p) = peerConnections p" "reports (updateHostBadge p) = reports p"
  "activeStream (ws_send m p) = activeStream p" "micStream (ws_send m p) = micStream p"
  "isMicMuted (ws_send m p) = isMicMuted p" "isSoundMuted (ws_send m p) = isSoundMuted p"
  "isPaused (ws_send m p) = isPaused p" "frozenVideoTrack (ws_send m p) = frozenVideoTrack p"
  "waiting (ws_send m p) = waiting p" "ws_open (ws_send m p) = ws_open p"
  "tracks (ws_send m p) = tracks p" "next_track (ws_send m p) = next_track p"
  "peerConnections (ws_send m p) = peerConnections p" "reports (ws_send m p) = reports p"
  by (simp_all add: post_report_def updateHostBadge_def ws_send_def)

lemma waiting_fields [simp]:
  "activeStream (startShare p) = activeStream p" "micStream (startShare p) = micStream p"
  "isMicMuted (startShare p) = isMicMuted p" "isSoundMuted (startShare p) = isSoundMuted p"
  "isPaused (startShare p) = isPaused p" "frozenVideoTrack (startShare p) = frozenVideoTrack p"
  "waiting (startShare p) = waiting p @ [Display]" "ws_open (startShare p) = ws_open p"
  "tracks (startShare p) = tracks p" "next_track (startShare p) = next_track p"
  "peerConnections (startShare p) = peerConnections p" "reports (startShare p) = reports p"
  "activeStream (resolve a p) = activeStream p" "micStream (resolve a p) = micStream p"
  "isMicMuted (resolve a p) = isMicMuted p" "isSoundMuted (resolve a p) = isSoundMuted p"
  "isPaused (resolve a p) = isPaused p" "frozenVideoTrack (resolve a p) = frozenVideoTrack p"
  "waiting (resolve a p) = remove1 a (waiting p)" "ws_open (resolve a p) = ws_open p"
  "tracks (resolve a p) = tracks p" "next_track (resolve a p) = next_track p"
  "peerConnections (resolve a p) = peerConnections p" "reports (resolve a p) = reports p"
  by (simp_all add: startShare_def resolve_def)

lemma socket_fields [simp]:
  "activeStream (ws_onopen p) = activeStream p" "micStream (ws_onopen p) = micStream p"
  "isMicMuted (ws_onopen p) = isMicMuted p" "isSoundMuted (ws_onopen p) = isSoundMuted p"
  "isPaused (ws_onopen p) = isPaused p" "frozenVideoTrack (ws_onopen p) = frozenVideoTrack p"
  "waiting (ws_onopen p) = waiting p @ [Display]" "ws_open (ws_onopen p)"
  "tracks (ws_onopen p) = tracks p" "next_track (ws_onopen p) = next_track p"
  "peerConnections (ws_onopen p) = peerConnections p" "reports (ws_onopen p) = reports p"
  "activeStream (ws_onclose p) = activeStream p" "micStream (ws_onclose p) = micStream p"
  "isMicMuted (ws_onclose p) = isMicMuted p" "isSoundMuted (ws_onclose p) = isSoundMuted p"
  "isPaused (ws_onclose p) = isPaused p" "frozenVideoTrack (ws_onclose p) = frozenVideoTrack p"
  "waiting (ws_onclose p) = waiting p" "\<not> ws_open (ws_onclose p)"
  "tracks (ws_onclose p) = tracks p" "next_track (ws_onclose p) = next_track p"
  "peerConnections (ws_onclose p) = peerConnections p" "reports (ws_onclose p) = reports p"
  by (simp_all add: ws_onopen_def ws_onclose_def)

lemma session_fields [simp]:
  "activeStream (hostsession sid p) = activeStream p" "micStream (hostsession sid p) = micStream p"
  "isMicMuted (hostsession sid p) = isMicMuted p" "isSoundMuted (hostsession sid p) = isSoundMuted p"
  "isPaused (hostsession sid p) = isPaused p" "frozenVideoTrack (hostsession sid p) = frozenVideoTrack p"
  "waiting (hostsession sid p) = waiting p" "ws_open (hostsession sid p) = ws_open p"
  "tracks (hostsession sid p) = tracks p" "next_track (hostsession sid p) = next_track p"
  "reports (hostsession sid p) = reports p"
  "activeStream (endshare sid p) = activeStream p" "micStream (endshare sid p) = micStream p"
  "isMicMuted (endshare sid p) = isMicMuted p" "isSoundMuted (endshare sid p) = isSoundMuted p"
  "isPaused (endshare sid p) = isPaused p" "frozenVideoTrack (endshare sid p) = frozenVideoTrack p"
  "waiting (endshare sid p) = waiting p" "ws_open (endshare sid p) = ws_open p"
  "tracks (endshare sid p) = tracks p" "next_track (endshare sid p) = next_track p"
  "reports (endshare sid p) = reports p"
  by (simp_all add: hostsession_def endshare_def Let_def)

lemma finish_share_fields [simp]:
  "activeStream (finish_share s p) = Some s" "micStream (finish_share s p) = micStream p"
  "isMicMuted (finish_share s p) = isMicMuted p" "isSoundMuted (finish_share s p) = isSoundMuted p"
  "isPaused (finish_share s p) = False" "frozenVideoTrack (finish_share s p) = frozenVideoTrack p"
  "waiting (finish_share s p) = waiting p" "ws_open (finish_share s p) = ws_open p"
  "tracks (finish_share s p) = tracks p" "next_track (finish_share s p) = next_track p"
  "reports (finish_share s p) = reports p @ [[(''sharing'', True), (''paused'', False),
     (''micMuted'', isMicMuted p), (''soundMuted'', isSoundMuted p)]]"
  "peerConnections (finish_share s p) = map (apsnd (\<lambda>ss. fold (attach p (length ss)) s ss)) (peerConnections p)"
proof -
  have "attach ((updateHostBadge (p\<lparr>activeStream := Some s, isPaused := False, page_overlay := False\<rparr>))
      \<lparr>hiddenHostVideo := Some s\<rparr>) = attach p"
    by (intro ext) (simp add: attach_def)
  then show "peerConnections (finish_share s p) = map (apsnd (\<lambda>ss. fold (attach p (length ss)) s ss)) (peerConnections p)"
    by (simp add: finish_share_def Let_def)
qed (simp_all add: finish_share_def Let_def full_report_def)

lemma new_tracks_more [simp]:
  "micStream (snd (new_tracks k n p)) = micStream p" "isMicMuted (snd (new_tracks k n p)) = isMicMuted p"
  "isSoundMuted (snd (new_tracks k n p)) = isSoundMuted p" "ws_open (snd (new_tracks k n p)) = ws_open p"
  "reports (snd (new_tracks k n p)) = reports p"
  "live (tracks (snd (new_tracks k n p)) t) \<longleftrightarrow> (next_track p \<le> t \<and> t < next_track p + n) \<or> live (tracks p t)"
  "enabled (tracks (snd (new_tracks k n p)) t) \<longleftrightarrow> (next_track p \<le> t \<and> t < next_track p + n) \<or> enabled (tracks p t)"
  by (auto simp: new_tracks_def)

lemma ws_open_set_enabled [simp]: "ws_open (set_enabled b ts p) = ws_open p"
  by (simp add: set_enabled_def)

lemma display_done_fields [simp]:
  "reports (display_done None p) = reports p @ [[(''sharing'', False), (''paused'', False)]]"
  "activeStream (display_done None p) = activeStream p" "waiting (display_done None p) = waiting p"
  "peerConnections (display_done None p) = peerConnections p" "tracks (display_done None p) = tracks p"
  "micStream (display_done r p) = micStream p" "isMicMuted (display_done r p) = isMicMuted p"
  "isSoundMuted (display_done r p) = isSoundMuted p" "frozenVideoTrack (display_done r p) = frozenVideoTrack p"
  "ws_open (display_done r p) = ws_open p"
  by (simp_all add: display_done_def case_prod_beta new_tracks_fields split: option.splits)

lemma display_done_audio [simp]:
  "activeStream (display_done (Some (Suc n)) p) = Some [next_track p..<next_track p + n + 2]"
  "waiting (display_done (Some (Suc n)) p) = waiting p"
  "isPaused (display_done (Some (Suc n)) p) = False"
  "next_track (display_done (Some (Suc n)) p) = next_track p + n + 2"
  "reports (display_done (Some (Suc n)) p) = reports p @ [[(''sharing'', True), (''paused'', False),
     (''micMuted'', isMicMuted p), (''soundMuted'', isSoundMuted p)]]"
  "kind (tracks (display_done (Some (Suc n)) p) t) = (if t = next_track p then Video
     else if next_track p < t \<and> t < next_track p + n + 2 then Audio else kind (tracks p t))"
  "live (tracks (display_done (Some (Suc n)) p) t) \<longleftrightarrow>
     (next_track p \<le> t \<and> t < next_track p + n + 2) \<or> live (tracks p t)"
  "enabled (tracks (display_done (Some (Suc n)) p) t) \<longleftrightarrow>
     (if t = next_track p then True else if next_track p < t \<and> t < next_track p + n + 2 then \<not> isSoundMuted p
      else enabled (tracks p t))"
  apply (simp_all add: display_done_def case_prod_beta new_tracks_fields)
  apply (auto simp: upt_conv_Cons)
  done


end
