(* ===== verification/Failsafe_Host.thy ===== *)
theory Failsafe_Host
  imports Failsafe_Page
begin

text \<open>
  What holds of the broadcasting page in every state it can reach: what the viewers are sent in
  and out of a pause, what stopping releases, and what the asynchronous starts and the
  microphone requests can lead to.
\<close>

section \<open>What the viewers are sent\<close>

text \<open>
  The invariant, over the kinds and flags of the tracks and the fields of the page it is about:
  a stream is one video track and then audio tracks, a connection has at most one video sender,
  and its track is the one of the current capture or, in a pause, the frozen picture or a
  disabled track.
\<close>

definition vids :: "(nat \<Rightarrow> media) \<Rightarrow> sender list \<Rightarrow> nat list" where
  "vids kd ss = filter (\<lambda>t. kd t = Video) (map fst ss)"

lemma vids_simps [simp]:
  "vids kd [] = []"
  "vids kd ((t, n) # ss) = (if kd t = Video then t # vids kd ss else vids kd ss)"
  "vids kd (ss @ rs) = vids kd ss @ vids kd rs"
  by (simp_all add: vids_def)

lemma vids_replace_video:
  "kd t = Video \<Longrightarrow> length (vids kd ss) \<le> 1 \<Longrightarrow>
    vids kd (replace_first (\<lambda>s. kd s = Video) t ss) = (if vids kd ss = [] then [] else [t])"
  by (induction "\<lambda>s. kd s = Video" t ss rule: replace_first.induct) auto

lemma vids_replace_audio:
  "kd t = Audio \<Longrightarrow> vids kd (replace_first (\<lambda>s. kd s = Audio) t ss) = vids kd ss"
  by (induction "\<lambda>s. kd s = Audio" t ss rule: replace_first.induct) auto

lemma fst_replace_first: "x \<in> set (replace_first P t ss) \<Longrightarrow> fst x = t \<or> x \<in> set ss"
  by (induction P t ss rule: replace_first.induct) (auto split: if_splits)

definition stream_ok :: "(nat \<Rightarrow> media) \<Rightarrow> nat \<Rightarrow> stream \<Rightarrow> bool" where
  "stream_ok kd nx s \<longleftrightarrow> (\<exists>v as. s = v # as \<and> kd v = Video \<and> v < nx \<and> (\<forall>t \<in> set as. kd t = Audio \<and> t < nx))"

definition sender_ok ::
  "(nat \<Rightarrow> media) \<Rightarrow> (nat \<Rightarrow> bool) \<Rightarrow> nat \<Rightarrow> stream option \<Rightarrow> nat option \<Rightarrow> bool \<Rightarrow> sender list \<Rightarrow> bool" where
  "sender_ok kd en nx act fr pa ss \<longleftrightarrow>
     length (vids kd ss) \<le> 1 \<and> (\<forall>x \<in> set ss. fst x < nx) \<and>
     (\<forall>s t. act = Some s \<longrightarrow> t \<in> set (vids kd ss) \<longrightarrow>
       (if pa then fr = Some t \<or> (t = hd s \<and> \<not> en t) else t = hd s))"

definition inv_of ::
  "(nat \<Rightarrow> media) \<Rightarrow> (nat \<Rightarrow> bool) \<Rightarrow> nat \<Rightarrow> stream option \<Rightarrow> await list \<Rightarrow> nat option \<Rightarrow> bool \<Rightarrow>
     (string \<times> sender list) list \<Rightarrow> bool" where
  "inv_of kd en nx act wt fr pa ps \<longleftrightarrow>
     (\<forall>s. act = Some s \<longrightarrow> stream_ok kd nx s) \<and>
     (\<forall>vs. Loopback vs \<in> set wt \<longrightarrow> stream_ok kd nx vs) \<and>
     (\<forall>f. fr = Some f \<longrightarrow> kd f = Video \<and> f < nx) \<and>
     (act = None \<longrightarrow> \<not> pa) \<and>
     (\<forall>s. act = Some s \<longrightarrow> pa \<longrightarrow> fr = None \<longrightarrow> \<not> en (hd s)) \<and>
     (\<forall>ss \<in> snd ` set ps. sender_ok kd en nx act fr pa ss)"

definition page_inv :: "page \<Rightarrow> bool" where
  "page_inv p \<longleftrightarrow> inv_of (\<lambda>t. kind (tracks p t)) (\<lambda>t. enabled (tracks p t)) (next_track p) (activeStream p)
     (waiting p) (frozenVideoTrack p) (isPaused p) (peerConnections p)"

lemma page_inv_post [simp]:
  "page_inv (post_report r p) = page_inv p" "page_inv (updateHostBadge p) = page_inv p"
  "page_inv (ws_send m p) = page_inv p"
  by (simp_all add: post_report_def updateHostBadge_def ws_send_def page_inv_def)

lemma inv_ofD:
  assumes "inv_of kd en nx act wt fr pa ps"
  shows "act = Some s \<Longrightarrow> stream_ok kd nx s" and "Loopback vs \<in> set wt \<Longrightarrow> stream_ok kd nx vs"
    and "fr = Some f \<Longrightarrow> kd f = Video" and "fr = Some f \<Longrightarrow> f < nx" and "act = None \<Longrightarrow> \<not> pa"
    and "act = Some s \<Longrightarrow> pa \<Longrightarrow> fr = None \<Longrightarrow> \<not> en (hd s)"
    and "ss \<in> snd ` set ps \<Longrightarrow> sender_ok kd en nx act fr pa ss"
  using assms by (auto simp: inv_of_def)

lemma inv_ofI:
  assumes "\<And>s. act = Some s \<Longrightarrow> stream_ok kd nx s" "\<And>vs. Loopback vs \<in> set wt \<Longrightarrow> stream_ok kd nx vs"
    "\<And>f. fr = Some f \<Longrightarrow> kd f = Video" "\<And>f. fr = Some f \<Longrightarrow> f < nx" "act = None \<Longrightarrow> \<not> pa"
    "\<And>s. act = Some s \<Longrightarrow> pa \<Longrightarrow> fr = None \<Longrightarrow> \<not> en (hd s)"
    "\<And>ss. ss \<in> snd ` set ps \<Longrightarrow> sender_ok kd en nx act fr pa ss"
  shows "inv_of kd en nx act wt fr pa ps"
  using assms by (simp add: inv_of_def)

lemma inv_waiting: "inv_of kd en nx act wt fr pa ps \<Longrightarrow> set wt' \<subseteq> insert Display (insert MicRequest (set wt)) \<Longrightarrow>
  inv_of kd en nx act wt' fr pa ps"
  by (rule inv_ofI) (auto dest: inv_ofD)

lemma inv_senders: "inv_of kd en nx act wt fr pa ps \<Longrightarrow>
    (\<And>ss. ss \<in> snd ` set ps' \<Longrightarrow> ss \<in> snd ` set ps \<or> sender_ok kd en nx act fr pa ss) \<Longrightarrow>
  inv_of kd en nx act wt fr pa ps'"
  by (rule inv_ofI) (auto dest: inv_ofD)

lemma vids_same: "\<forall>x \<in> set ss. kd' (fst x) = kd (fst x) \<Longrightarrow> vids kd' ss = vids kd ss"
  by (induction ss) auto

lemma sender_ok_grow:
  assumes "sender_ok kd en nx act fr pa ss" "\<forall>t < nx. kd' t = kd t \<and> (kd t = Video \<longrightarrow> en' t \<longrightarrow> en t)" "nx \<le> nx'"
  shows "sender_ok kd' en' nx' act fr pa ss"
proof -
  have k: "\<forall>x \<in> set ss. fst x < nx" using assms(1) by (simp add: sender_ok_def)
  then have "vids kd' ss = vids kd ss" using assms(2) by (intro vids_same) auto
  moreover have "kd t = Video \<and> t < nx" if "t \<in> set (vids kd ss)" for t
    using that k by (auto simp: vids_def)
  ultimately show ?thesis
    using assms k unfolding sender_ok_def by (metis order_less_le_trans)
qed

lemma stream_ok_grow:
  assumes "stream_ok kd nx s" "\<forall>t < nx. kd' t = kd t" "nx \<le> nx'"
  shows "stream_ok kd' nx' s"
proof -
  obtain v as where "s = v # as" "kd v = Video" "v < nx" "\<forall>t \<in> set as. kd t = Audio \<and> t < nx"
    using assms(1) by (auto simp: stream_ok_def)
  then show ?thesis using assms(2,3) by (auto simp: stream_ok_def)
qed

lemma inv_grow:
  assumes "inv_of kd en nx act wt fr pa ps" "\<forall>t < nx. kd' t = kd t \<and> (kd t = Video \<longrightarrow> en' t \<longrightarrow> en t)" "nx \<le> nx'"
  shows "inv_of kd' en' nx' act wt fr pa ps"
proof -
  have s: "stream_ok kd nx s \<Longrightarrow> stream_ok kd' nx' s" for s
    by (erule stream_ok_grow) (use assms in auto)
  have r: "sender_ok kd en nx act fr pa ss \<Longrightarrow> sender_ok kd' en' nx' act fr pa ss" for ss
    by (erule sender_ok_grow) (use assms in auto)
  note i = inv_ofD [OF assms(1)]
  show ?thesis
  proof (rule inv_ofI)
    show "\<not> en' (hd s)" if "act = Some s" "pa" "fr = None" for s
      using i(1,6) [OF that(1)] that assms(2) by (auto simp: stream_ok_def)
    show "sender_ok kd' en' nx' act fr pa ss" if "ss \<in> snd ` set ps" for ss
      using i(7) [OF that] by (rule r)
  qed (use i assms(2,3) in \<open>auto intro: s r dest: less_le_trans\<close>)
qed

lemma page_inv_stop: "page_inv p \<Longrightarrow> page_inv (stop_tracks ts p)"
  by (simp add: page_inv_def stop_tracks_def) (erule inv_grow, auto)

lemma page_inv_disable: "page_inv p \<Longrightarrow> page_inv (set_enabled False ts p)"
  by (simp add: page_inv_def set_enabled_def) (erule inv_grow, auto)

lemma page_inv_audio: "page_inv p \<Longrightarrow> \<forall>t \<in> set ts. kind (tracks p t) = Audio \<Longrightarrow> page_inv (set_enabled b ts p)"
  by (simp add: page_inv_def set_enabled_def) (erule inv_grow, auto)

lemma page_inv_new: "page_inv p \<Longrightarrow> page_inv (snd (new_tracks k n p))"
  by (simp add: page_inv_def new_tracks_def) (erule inv_grow, auto)

lemma page_inv_resolve: "page_inv p \<Longrightarrow> page_inv (resolve a p)"
  using set_remove1_subset [of a "waiting p"] by (simp add: page_inv_def resolve_def) (erule inv_waiting, auto)

lemma page_inv_start: "page_inv p \<Longrightarrow> page_inv (startShare p)"
  by (simp add: page_inv_def startShare_def) (erule inv_waiting, auto)

lemma inv_peers:
  assumes "inv_of kd en nx act wt fr pa ps"
    "\<And>s. act' = Some s \<Longrightarrow> stream_ok kd nx s" "\<And>f. fr' = Some f \<Longrightarrow> kd f = Video \<and> f < nx"
    "act' = None \<Longrightarrow> \<not> pa'" "\<And>s. act' = Some s \<Longrightarrow> pa' \<Longrightarrow> fr' = None \<Longrightarrow> \<not> en' (hd s)"
    "\<And>ss. sender_ok kd en nx act fr pa ss \<Longrightarrow> sender_ok kd en' nx act' fr' pa' (f ss)"
  shows "inv_of kd en' nx act' wt fr' pa' (map (apsnd f) ps)"
proof -
  note i = inv_ofD [OF assms(1)]
  show ?thesis
  proof (rule inv_ofI)
    fix ss
    assume "ss \<in> snd ` set (map (apsnd f) ps)"
    then obtain rs where "ss = f rs" "rs \<in> snd ` set ps" by force
    then show "sender_ok kd en' nx act' fr' pa' ss" using assms(6) i(7) by simp
  qed (use i assms(2-5) in auto)
qed

text \<open>A share begins.\<close>

lemma vids_attach_audio: "kind (tracks p t) = Audio \<Longrightarrow>
    vids (\<lambda>t. kind (tracks p t)) (attach p n t ss) = vids (\<lambda>t. kind (tracks p t)) ss"
  using vids_replace_audio [of "\<lambda>t. kind (tracks p t)" t ss] by (simp add: attach_def)

lemma vids_attach_audios: "\<forall>t \<in> set ts. kind (tracks p t) = Audio \<Longrightarrow>
    vids (\<lambda>t. kind (tracks p t)) (fold (attach p n) ts ss) = vids (\<lambda>t. kind (tracks p t)) ss"
  by (induction ts arbitrary: ss) (simp_all add: vids_attach_audio)

lemma list_ex_vids: "list_ex (\<lambda>(s, _). kd s = Video) ss \<longleftrightarrow> vids kd ss \<noteq> []"
  by (induction ss) (auto split: if_splits)

lemma vids_attach_video:
  assumes "kind (tracks p t) = Video" "length (vids (\<lambda>t. kind (tracks p t)) ss) \<le> 1"
  shows "vids (\<lambda>t. kind (tracks p t)) (attach p (length ss) t ss) = [t]"
  using assms vids_replace_video [of "\<lambda>t. kind (tracks p t)" t ss] list_ex_vids [of "\<lambda>t. kind (tracks p t)" ss]
  by (cases "vids (\<lambda>t. kind (tracks p t)) ss = []") (simp_all add: attach_def)

lemma fst_attach: "x \<in> set (attach p n t ss) \<Longrightarrow> fst x = t \<or> x \<in> set ss"
  using fst_replace_first [of x _ t ss] by (auto simp: attach_def split: if_splits)

lemma fst_attaches: "x \<in> set (fold (attach p n) ts ss) \<Longrightarrow> fst x \<in> set ts \<or> x \<in> set ss"
proof (induction ts arbitrary: ss)
  case (Cons t ts)
  from Cons.IH [of "attach p n t ss"] Cons.prems fst_attach [of x p n t ss] show ?case by auto
qed simp

lemma sender_ok_attach:
  assumes "sender_ok (\<lambda>t. kind (tracks p t)) en nx act fr pa ss" "stream_ok (\<lambda>t. kind (tracks p t)) nx s"
  shows "sender_ok (\<lambda>t. kind (tracks p t)) en' nx (Some s) fr' False (fold (attach p (length ss)) s ss)"
proof -
  obtain v as where s: "s = v # as" "kind (tracks p v) = Video" "v < nx"
      "\<forall>t \<in> set as. kind (tracks p t) = Audio" "\<forall>t \<in> set as. t < nx"
    using assms(2) by (auto simp: stream_ok_def)
  have "vids (\<lambda>t. kind (tracks p t)) (fold (attach p (length ss)) s ss) = [v]"
    using assms(1) s vids_attach_video [OF s(2), of ss] by (simp add: vids_attach_audios sender_ok_def)
  moreover have "fst x < nx" if "x \<in> set (fold (attach p (length ss)) s ss)" for x
    using fst_attaches [OF that] s assms(1) by (auto simp: sender_ok_def)
  ultimately show ?thesis
    using s(1) by (simp add: sender_ok_def)
qed

lemma page_inv_finish:
  assumes "page_inv p" "stream_ok (\<lambda>t. kind (tracks p t)) (next_track p) s"
  shows "page_inv (finish_share s p)"
proof -
  have "inv_of (\<lambda>t. kind (tracks p t)) (\<lambda>t. enabled (tracks p t)) (next_track p) (Some s)
      (waiting p) (frozenVideoTrack p) False
      (map (apsnd (\<lambda>ss. fold (attach p (length ss)) s ss)) (peerConnections p))"
    by (rule inv_peers [OF assms(1) [unfolded page_inv_def]])
       (use assms sender_ok_attach in \<open>auto simp: page_inv_def inv_of_def\<close>)
  moreover have "attach ((updateHostBadge (p\<lparr>activeStream := Some s, isPaused := False, page_overlay := False\<rparr>))
      \<lparr>hiddenHostVideo := Some s\<rparr>) = attach p"
    by (intro ext) (simp add: attach_def updateHostBadge_def)
  ultimately show ?thesis
    by (simp add: finish_share_def Let_def) (simp add: page_inv_def post_report_def ws_send_def updateHostBadge_def)
qed

lemma stream_ok_new:
  assumes "new_tracks Audio n p = (as, q)" "stream_ok (\<lambda>t. kind (tracks p t)) (next_track p) vs"
  shows "stream_ok (\<lambda>t. kind (tracks q t)) (next_track q) (vs @ as)"
  using assms by (force simp: stream_ok_def new_tracks_def)

lemma page_inv_finish_audio:
  assumes "page_inv p" "stream_ok (\<lambda>t. kind (tracks p t)) (next_track p) vs" "new_tracks Audio n p = (as, q)"
  shows "page_inv (finish_share (vs @ as) (set_enabled b as q))"
proof (rule page_inv_finish)
  have "page_inv q" using page_inv_new [OF assms(1), of Audio n] assms(3) by simp
  moreover have "\<forall>t \<in> set as. kind (tracks q t) = Audio"
    using assms(3) by (auto simp: new_tracks_def)
  ultimately show "page_inv (set_enabled b as q)" by (rule page_inv_audio)
  show "stream_ok (\<lambda>t. kind (tracks (set_enabled b as q) t)) (next_track (set_enabled b as q)) (vs @ as)"
    using stream_ok_new [OF assms(3,2)] by (simp add: set_enabled_def if_distrib cong: if_cong)
qed

lemma stream_ok_video:
  "new_tracks Video 1 p = (vs, q) \<Longrightarrow> stream_ok (\<lambda>t. kind (tracks q t)) (next_track q) vs"
  by (auto simp: stream_ok_def new_tracks_def)

lemma page_inv_display: 
  assumes "page_inv p"
  shows "page_inv (display_done r p)"
proof (cases r)
  case (Some n)
  obtain vs q where q: "new_tracks Video 1 p = (vs, q)" by fastforce
  then have i: "page_inv q" "stream_ok (\<lambda>t. kind (tracks q t)) (next_track q) vs"
    using page_inv_new [OF assms, of Video 1] stream_ok_video by auto
  show ?thesis
  proof (cases "0 < n")
    case True
    obtain as q' where "new_tracks Audio n q = (as, q')" by fastforce
    with Some q True page_inv_finish_audio [OF i] show ?thesis by (simp add: display_done_def)
  next
    case False
    have "page_inv (q\<lparr>waiting := waiting q @ [Loopback vs]\<rparr>)"
      using i by (auto simp: page_inv_def inv_of_def)
    with Some q False show ?thesis by (simp add: display_done_def)
  qed
qed (use assms in \<open>simp add: display_done_def\<close>)

lemma page_inv_loopback:
  assumes "page_inv p" "stream_ok (\<lambda>t. kind (tracks p t)) (next_track p) vs"
  shows "page_inv (loopback_done r vs p)"
proof (cases r)
  case (Some n)
  obtain as q where "new_tracks Audio n p = (as, q)" by fastforce
  with Some page_inv_finish_audio [OF assms] show ?thesis by (simp add: loopback_done_def)
qed (use assms page_inv_finish in \<open>simp add: loopback_done_def\<close>)

lemma page_inv_micStream [simp]: "page_inv (p\<lparr>micStream := m\<rparr>) = page_inv p"
  by (simp add: page_inv_def)

lemma page_inv_stopShare: "page_inv p \<Longrightarrow> page_inv (stopShare p)"
  by (auto simp: page_inv_def inv_of_def sender_ok_def)

lemma page_inv_sound:
  assumes "page_inv p"
  shows "page_inv (toggleSoundMute p)"
proof -
  have "page_inv (p\<lparr>isSoundMuted := b\<rparr>)" for b using assms by (simp add: page_inv_def)
  then show ?thesis
    by (auto simp: toggleSoundMute_def Let_def of_kind_def intro!: page_inv_audio split: option.splits)
qed

lemma page_inv_setMic:
  assumes "page_inv p"
  shows "page_inv (setMicEnabled en p)"
proof -
  have 1: "page_inv (p\<lparr>isMicMuted := b\<rparr>)" for b using assms by (simp add: page_inv_def)
  have 2: "page_inv (p\<lparr>isMicMuted := b, waiting := waiting p @ [MicRequest]\<rparr>)" for b
    using assms by (simp add: page_inv_def) (erule inv_waiting, auto)
  show ?thesis
    using 1 2 by (auto simp: setMicEnabled_def report_mic_def Let_def of_kind_def
        intro!: page_inv_audio page_inv_stop split: option.splits)
qed

lemma page_inv_add_audio:
  assumes "page_inv p" "activeStream p = Some s" "kind (tracks p t) = Audio" "t < next_track p"
  shows "page_inv (add_sender t (p\<lparr>activeStream := Some (s @ [t])\<rparr>))"
proof -
  obtain v as where s: "s = v # as" and i: "stream_ok (\<lambda>t. kind (tracks p t)) (next_track p) s"
    using assms(1,2) by (auto simp: page_inv_def inv_of_def stream_ok_def)
  have "inv_of (\<lambda>t. kind (tracks p t)) (\<lambda>t. enabled (tracks p t)) (next_track p) (Some (s @ [t]))
      (waiting p) (frozenVideoTrack p) (isPaused p) (map (apsnd (\<lambda>ss. ss @ [(t, False)])) (peerConnections p))"
    by (rule inv_peers [OF assms(1) [unfolded page_inv_def]])
       (use assms s i in \<open>auto simp: page_inv_def inv_of_def stream_ok_def sender_ok_def\<close>)
  then show ?thesis by (simp add: page_inv_def add_sender_def)
qed

lemma page_inv_mic:
  assumes "page_inv p"
  shows "page_inv (mic_done granted p)"
proof -
  obtain ts q where q: "new_tracks Audio 1 p = (ts, q)" by fastforce
  then have t: "ts = [next_track p]" "kind (tracks q (next_track p)) = Audio" "next_track p < next_track q"
    by (auto simp: new_tracks_def)
  have "page_inv q" using page_inv_new [OF assms, of Audio 1] q by simp
  then have i: "page_inv (q\<lparr>micStream := m\<rparr>)" for m by simp
  then show ?thesis
    using assms q t page_inv_add_audio [OF i]
    by (auto simp: mic_done_def report_mic_def Let_def split: option.splits)
qed

lemma sender_ok_offer:
  assumes "page_inv p" "activeStream p = Some s"
  shows "sender_ok (\<lambda>t. kind (tracks p t)) (\<lambda>t. enabled (tracks p t)) (next_track p) (activeStream p)
      (frozenVideoTrack p) (isPaused p) (map (\<lambda>t. (t, True)) ((if isPaused p \<and> frozenVideoTrack p \<noteq> None
         then [the (frozenVideoTrack p)] else take 1 (of_kind p Video s)) @ of_kind p Audio s))"
proof -
  note i = assms(1) [unfolded page_inv_def inv_of_def]
  obtain v as where s: "s = v # as" "kind (tracks p v) = Video" "v < next_track p"
      "\<forall>t \<in> set as. kind (tracks p t) = Audio \<and> t < next_track p"
    using i assms(2) by (auto simp: stream_ok_def)
  have a: "vids (\<lambda>t. kind (tracks p t)) (map (\<lambda>t. (t, True)) (of_kind p Audio ts)) = []" for ts
    by (induction ts) (simp_all add: of_kind_def)
  have k: "of_kind p Video s = [v]"
    using s by (auto simp: of_kind_def filter_empty_conv)
  have f: "frozenVideoTrack p = Some f \<Longrightarrow> kind (tracks p f) = Video \<and> f < next_track p" for f
    using i by blast
  have e: "isPaused p \<Longrightarrow> frozenVideoTrack p = None \<Longrightarrow> \<not> enabled (tracks p v)"
    using i assms(2) s(1) by auto
  have b: "\<forall>t \<in> set (of_kind p Audio s). t < next_track p"
    using s by (auto simp: of_kind_def)
  show ?thesis
    using s(2,3) a [of s] f e b assms(2)
    by (auto simp: sender_ok_def k s(1) [symmetric]) (simp add: s(1))+
qed

lemma page_inv_session:
  assumes "page_inv p"
  shows "page_inv (hostsession sid p)"
proof -
  have u: "page_inv (p\<lparr>peerConnections := AList.update sid ss (peerConnections p)\<rparr>)"
    if "sender_ok (\<lambda>t. kind (tracks p t)) (\<lambda>t. enabled (tracks p t)) (next_track p) (activeStream p)
      (frozenVideoTrack p) (isPaused p) ss" for ss
  proof -
    have "snd ` set (AList.update sid ss ps) \<subseteq> insert ss (snd ` set ps)" for ps :: "(string \<times> sender list) list"
      by (induction ps) auto
    with that assms show ?thesis by (simp add: page_inv_def) (erule inv_senders, blast)
  qed
  show ?thesis
  proof (cases "activeStream p")
    case None
    then show ?thesis
      using u [of "[]"] by (simp add: hostsession_def Let_def sender_ok_def)
  next
    case (Some s)
    from u [OF sender_ok_offer [OF assms Some]] Some show ?thesis
      by (simp add: hostsession_def Let_def)
  qed
qed

lemma page_inv_endshare:
  assumes "page_inv p"
  shows "page_inv (endshare sid p)"
proof -
  have "snd ` set (AList.delete sid ps) \<subseteq> snd ` set ps" for ps :: "(string \<times> sender list) list"
    by (auto simp: AList.delete_eq)
  with assms show ?thesis by (simp add: endshare_def page_inv_def) (erule inv_senders, blast)
qed

text \<open>The picture is frozen and thawed.\<close>

lemma vids_replace:
  assumes "kind (tracks p t) = Video" "sender_ok (\<lambda>t. kind (tracks p t)) en nx act fr pa ss" "t < nx"
    "\<And>s. act' = Some s \<Longrightarrow> if pa' then fr' = Some t \<or> (t = hd s \<and> \<not> en' t) else t = hd s"
  shows "sender_ok (\<lambda>t. kind (tracks p t)) en' nx act' fr' pa' (replace_first (\<lambda>s. kind (tracks p s) = Video) t ss)"
proof -
  have "fst x < nx" if "x \<in> set (replace_first (\<lambda>s. kind (tracks p s) = Video) t ss)" for x
    using fst_replace_first [OF that] assms(2,3) by (auto simp: sender_ok_def)
  then show ?thesis
    using assms vids_replace_video [of "\<lambda>t. kind (tracks p t)" t ss] by (auto simp: sender_ok_def)
qed

lemma page_inv_unpause:
  assumes "page_inv p" "activeStream p = Some s"
  shows "page_inv (replace_video (hd s) (set_enabled True [hd s] (clear_pause (p\<lparr>isPaused := False\<rparr>))))"
proof -
  let ?q = "clear_pause (p\<lparr>isPaused := False\<rparr>)"
  note i = assms(1) [unfolded page_inv_def]
  have h: "kind (tracks p (hd s)) = Video" "hd s < next_track p"
    using i assms(2) by (auto simp: inv_of_def stream_ok_def)
  have "inv_of (\<lambda>t. kind (tracks p t)) (\<lambda>t. t \<noteq> hd s \<longrightarrow> enabled (tracks p t)) (next_track p) (activeStream p)
      (waiting p) None False (map (apsnd (replace_first (\<lambda>t. kind (tracks p t) = Video) (hd s))) (peerConnections p))"
    by (rule inv_peers [OF i]) (use inv_ofD(1) [OF i] h assms(2) in \<open>auto intro: vids_replace\<close>)
  then show ?thesis
    by (simp add: page_inv_def)
qed

lemma page_inv_dim:
  assumes "page_inv r" "activeStream r = Some s" "\<not> isPaused r"
    "fr = frozenVideoTrack r \<or> (\<exists>f. fr = Some f \<and> kind (tracks r f) = Video \<and> f < next_track r)"
  shows "page_inv (set_enabled False [hd s] (r\<lparr>isPaused := True, frozenVideoTrack := fr\<rparr>))"
proof -
  note k = inv_ofD [OF assms(1) [unfolded page_inv_def]]
  have "inv_of (\<lambda>t. kind (tracks r t)) (\<lambda>t. t \<noteq> hd s \<and> enabled (tracks r t)) (next_track r) (activeStream r)
    (waiting r) fr True (map (apsnd (\<lambda>x. x)) (peerConnections r))"
    by (rule inv_peers [OF assms(1) [unfolded page_inv_def]]) (use k assms in \<open>auto simp: sender_ok_def\<close>)
  moreover have "map (apsnd (\<lambda>x. x)) xs = xs" for xs :: "(string \<times> sender list) list"
    by (induction xs) auto
  ultimately show ?thesis by (simp add: page_inv_def cong: if_cong conj_cong)
qed

lemma page_inv_frozen:
  assumes "page_inv q" "activeStream q = Some s" "kind (tracks q v) = Video" "v < next_track q"
  shows "page_inv (replace_video v (q\<lparr>isPaused := True, frozenVideoTrack := Some v\<rparr>))"
proof -
  note i = assms(1) [unfolded page_inv_def]
  have "inv_of (\<lambda>t. kind (tracks q t)) (\<lambda>t. enabled (tracks q t)) (next_track q) (activeStream q)
      (waiting q) (Some v) True (map (apsnd (replace_first (\<lambda>t. kind (tracks q t) = Video) v)) (peerConnections q))"
    by (rule inv_peers [OF i]) (use inv_ofD(1) [OF i] assms in \<open>auto intro: vids_replace\<close>)
  then show ?thesis by (simp add: page_inv_def)
qed

lemma page_inv_freeze:
  assumes "page_inv p" "activeStream p = Some s" "\<not> isPaused p"
  shows "page_inv (freeze_frame f (p\<lparr>isPaused := True\<rparr>))"
proof -
  let ?q = "snd (new_tracks Video 1 p)" and ?v = "next_track p"
  have "stream_ok (\<lambda>t. kind (tracks p t)) (next_track p) s"
    using inv_ofD(1) [OF assms(1) [unfolded page_inv_def] assms(2)] .
  then have v: "of_kind (p\<lparr>isPaused := True\<rparr>) Video s = [hd s]"
    by (auto simp: stream_ok_def of_kind_def filter_empty_conv)
  have q: "page_inv ?q" "activeStream ?q = Some s" "\<not> isPaused ?q" "kind (tracks ?q ?v) = Video" "?v < next_track ?q"
    using page_inv_new [OF assms(1)] assms by (simp_all add: new_tracks_fields)
  show ?thesis
  proof (cases f)
    case Frozen
    with assms page_inv_frozen [OF q(1,2,4,5)] show ?thesis
      by (simp add: freeze_frame_def v case_prod_beta Let_def page_inv_def new_tracks_fields)
  next
    case FreezeErrorLate
    have "page_inv (set_enabled False [hd s] (?q\<lparr>isPaused := True, frozenVideoTrack := Some ?v\<rparr>))"
      by (rule page_inv_dim) (use q in auto)
    with FreezeErrorLate assms show ?thesis
      by (simp add: freeze_frame_def v case_prod_beta Let_def page_inv_def new_tracks_fields cong: if_cong)
  qed (use assms page_inv_dim [of p s "frozenVideoTrack p"] v in \<open>simp_all add: freeze_frame_def page_inv_def\<close>)
qed

lemma page_inv_togglePause:
  assumes "page_inv p"
  shows "page_inv (togglePause f p)"
proof (cases "activeStream p")
  case (Some s)
  have v: "of_kind p Video s = [hd s]"
    using inv_ofD(1) [OF assms [unfolded page_inv_def] Some]
    by (auto simp: stream_ok_def of_kind_def filter_empty_conv)
  moreover have "of_kind (clear_pause (p\<lparr>isPaused := False\<rparr>)) Video s = [hd s]"
    using v by (simp add: of_kind_def)
  ultimately show ?thesis
    using assms Some page_inv_freeze [OF assms Some] page_inv_unpause [OF assms Some]
    by (simp add: togglePause_def Let_def)
qed (use assms in \<open>simp add: togglePause_def\<close>)

lemma page_inv_open: "page_inv p \<Longrightarrow> page_inv (ws_onopen p)" and page_inv_close: "page_inv p \<Longrightarrow> page_inv (ws_onclose p)"
proof -
  assume i: "page_inv p"
  have "page_inv ((ws_send MCreate (p\<lparr>ws_open := True, badge := b\<rparr>))\<lparr>page_message := m, start_button := x\<rparr>)" for b m x using i by (simp add: page_inv_def ws_send_def)
  then show "page_inv (ws_onopen p)" by (simp add: ws_onopen_def page_inv_start)
  show "page_inv (ws_onclose p)" using i by (simp add: ws_onclose_def page_inv_def)
qed

lemma page_inv_handle:
  assumes "page_inv p" "possible e p"
  shows "page_inv (handle e p)"
proof (cases e)
  case (LoopbackDone r vs)
  have "stream_ok (\<lambda>t. kind (tracks p t)) (next_track p) vs"
    using LoopbackDone assms inv_ofD(2) by (auto simp: page_inv_def possible_def)
  then show ?thesis
    using LoopbackDone page_inv_loopback [OF page_inv_resolve [OF assms(1)]] by (simp add: handle_def resolve_def)
qed (use assms(1) in \<open>auto simp: handle_def poll_action_def intro!: page_inv_open page_inv_close page_inv_session page_inv_endshare
      page_inv_start page_inv_stopShare page_inv_togglePause page_inv_setMic page_inv_sound page_inv_display page_inv_mic
      page_inv_resolve page_inv_stop\<close>)

lemma page_inv_reach: "page_reach p \<Longrightarrow> page_inv p"
proof (induction rule: page_reach.induct)
  case init
  show ?case by (simp add: page_inv_def inv_of_def init_page_def)
qed (rule page_inv_handle)

section \<open>Properties of the page\<close>


lemma togglePause_frozen:
  assumes "activeStream p = Some s" "of_kind p Video s \<noteq> []" "\<not> isPaused p"
  shows "isPaused (togglePause Frozen p)" "frozenVideoTrack (togglePause Frozen p) = Some (next_track p)"
    "activeStream (togglePause Frozen p) = Some s" "waiting (togglePause Frozen p) = waiting p"
    "ws_open (togglePause Frozen p) = ws_open p"
    "kind (tracks (togglePause Frozen p) t) = (if t = next_track p then Video else kind (tracks p t))"
  using assms
  by (auto simp: togglePause_def freeze_frame_def case_prod_beta Let_def new_tracks_fields replace_video_def new_tracks_def)

definition paused_page :: page where
  "paused_page = hostsession ''w'' (togglePause Frozen (display_done (Some 1) (resolve Display (ws_onopen init_page))))"

lemma init_fields [simp]:
  "activeStream init_page = None" "micStream init_page = None" "isMicMuted init_page = False"
  "isSoundMuted init_page = False" "isPaused init_page = False" "frozenVideoTrack init_page = None"
  "waiting init_page = []" "ws_open init_page = False" "next_track init_page = 0"
  "peerConnections init_page = []" "reports init_page = []"
  by (simp_all add: init_page_def)

lemma paused_page_fields:
  "page_reach paused_page" "activeStream paused_page = Some [0, 1]" "isPaused paused_page"
  "(''w'', [(2, True), (1, True)]) \<in> set (peerConnections paused_page)" "kind (tracks paused_page 2) = Video"
proof -
  let ?p = "display_done (Some 1) (resolve Display (ws_onopen init_page))"
  have p: "activeStream ?p = Some [0, 1]" "of_kind ?p Video [0, 1] = [0]" "of_kind ?p Audio [0, 1] = [1]"
    "\<not> isPaused ?p" "next_track ?p = 2" "waiting ?p = []" "ws_open ?p"
    by (simp_all add: of_kind_def upt_rec)
  note f = togglePause_frozen [OF p(1) _ p(4), unfolded p]
  show "activeStream paused_page = Some [0, 1]" "isPaused paused_page" "kind (tracks paused_page 2) = Video"
    using f by (simp_all add: paused_page_def)
  have "of_kind (togglePause Frozen ?p) Audio [0, 1] = [1]"
    using p(3) f by (simp add: of_kind_def)
  then have "map_of (peerConnections paused_page) ''w'' = Some [(2, True), (1, True)]"
    using f by (simp add: paused_page_def hostsession_def Let_def update_Some_unfold update_conv')
  then show "(''w'', [(2, True), (1, True)]) \<in> set (peerConnections paused_page)" by (rule map_of_SomeD)
  have "run_page [WsOpen, DisplayDone (Some 1), Action Frozen ''toggle_pause'', Session ''w''] init_page = paused_page"
    by (simp add: handle_def paused_page_def poll_action_def)
  moreover have "all_possible [WsOpen, DisplayDone (Some 1), Action Frozen ''toggle_pause'', Session ''w''] init_page"
    using f p by (simp add: possible_def handle_def poll_action_def)
  ultimately show "page_reach paused_page"
    using page_reach_run [OF page_reach.init] by metis
qed




text \<open>C12: stopShare ends every track the page still refers to (capture, microphone, frozen
  picture) and no other, stops the timer of the pause, tells the server while the socket is
  open, and reports that nothing is shared, from every state of the page.\<close>

theorem stop_share_releases:
  "activeStream (stopShare p) = None \<and> micStream (stopShare p) = None \<and> frozenVideoTrack (stopShare p) = None \<and>
    \<not> isPaused (stopShare p) \<and> pauseInterval (stopShare p) = None \<and>
    sent (stopShare p) = sent p @ (if ws_open p then [MStopShare] else []) \<and>
    reports (stopShare p) = reports p @ [[(''sharing'', False), (''paused'', False)]] \<and>
    {t. live (tracks (stopShare p) t)} = {t. live (tracks p t)} -
      (set (case activeStream p of Some s \<Rightarrow> s | None \<Rightarrow> []) \<union> set (case micStream p of Some s \<Rightarrow> s | None \<Rightarrow> []) \<union>
       set_option (frozenVideoTrack p))"
  by (auto split: option.splits)

lemma run_reach:
  "all_possible es init_page \<Longrightarrow> run_page es init_page = p \<Longrightarrow> page_reach p"
  using page_reach_run [OF page_reach.init] by blast

lemma ws_open_stop [simp]: "ws_open (stopShare p) = ws_open p"
  by (auto simp: stopShare_def Let_def split: option.splits)


text \<open>C10: A second start that the user refuses, while the first capture is broadcast, reports
  that nothing is shared, although a connected viewer is sent the live screen.\<close>

theorem refused_start_hides_broadcast:
  "\<exists>p sid ss t. page_reach p \<and> last (reports p) = [(''sharing'', False), (''paused'', False)] \<and> waiting p = [] \<and>
    activeStream p \<noteq> None \<and> (sid, ss) \<in> set (peerConnections p) \<and> (t, True) \<in> set ss \<and>
    kind (tracks p t) = Video \<and> live (tracks p t) \<and> enabled (tracks p t)"
proof -
  let ?p1 = "display_done (Some 1) (resolve Display (startShare (ws_onopen init_page)))"
  let ?p = "display_done None (resolve Display (hostsession ''v'' ?p1))"
  have r: "page_reach ?p"
    by (rule run_reach [of "[WsOpen, Action Frozen ''start_share'', DisplayDone (Some 1), Session ''v'', DisplayDone None]"])
       (simp_all add: handle_def possible_def poll_action_def)
  have "map_of (peerConnections ?p) ''v'' = Some [(0, True), (1, True)]"
    by (simp add: hostsession_def Let_def update_conv' of_kind_def upt_rec)
  then have "(''v'', [(0, True), (1, True)]) \<in> set (peerConnections ?p)" by (rule map_of_SomeD)
  with r show ?thesis
    by (intro exI [of _ ?p] exI [of _ "''v''"] exI [of _ "[(0, True), (1, True)]"] exI [of _ 0]) simp
qed

text \<open>After the share was stopped, the loss and the return of the signalling socket alone
  start a new one: no button and no action of the toolbar is involved, only the capture that
  the reopened socket asks for and the browser grants.\<close>

lemma reconnect_restarts_share:
  assumes "page_reach p" "ws_open p" "activeStream p = None" "0 < n"
  shows "\<exists>q. q = run_page [WsClose, WsOpen, DisplayDone (Some n)] p \<and> page_reach q \<and>
    activeStream q \<noteq> None \<and> \<not> isPaused q \<and> last (reports q) = full_report q \<and> (''sharing'', True) \<in> set (full_report q)"
proof -
  obtain m where n: "n = Suc m" using assms(4) by (cases n) auto
  have "all_possible [WsClose, WsOpen, DisplayDone (Some n)] p"
    using assms(2) by (simp add: possible_def handle_def)
  from page_reach_run [OF assms(1) this] show ?thesis
    by (simp add: handle_def n full_report_def)
qed

text \<open>The microphone.\<close>

lemma setMic_fields [simp]:
  "isMicMuted (setMicEnabled en p) = (\<not> en)" "isSoundMuted (setMicEnabled en p) = isSoundMuted p"
  "micStream (setMicEnabled False p) = None" "waiting (setMicEnabled False p) = waiting p"
  "activeStream (setMicEnabled en p) = activeStream p" "ws_open (setMicEnabled en p) = ws_open p"
  "next_track (setMicEnabled en p) = next_track p"
  "peerConnections (setMicEnabled en p) = peerConnections p"
  "reports (setMicEnabled False p) = reports p @ [[(''micMuted'', True)]]"
  "kind (tracks (setMicEnabled en p) t) = kind (tracks p t)"
  by (auto simp: setMicEnabled_def report_mic_def Let_def split: option.splits)

lemma setMic_request:
  assumes "micStream p = None"
  shows "waiting (setMicEnabled True p) = waiting p @ [MicRequest]" "micStream (setMicEnabled True p) = None"
    "reports (setMicEnabled True p) = reports p"
  using assms by (simp_all add: setMicEnabled_def Let_def)

lemma mic_done_fields:
  assumes "activeStream p = Some s"
  shows "micStream (mic_done True p) = Some [next_track p]" "isMicMuted (mic_done True p) = isMicMuted p"
    "activeStream (mic_done True p) = Some (s @ [next_track p])" "waiting (mic_done True p) = waiting p"
    "reports (mic_done True p) = reports p @ [[(''micMuted'', isMicMuted p)]]"
    "peerConnections (mic_done True p) = map (apsnd (\<lambda>ss. ss @ [(next_track p, False)])) (peerConnections p)"
    "live (tracks (mic_done True p) (next_track p))" "enabled (tracks (mic_done True p) (next_track p))"
    "kind (tracks (mic_done True p) (next_track p)) = Audio"
  using assms by (simp_all add: mic_done_def report_mic_def Let_def new_tracks_def add_sender_def)

text \<open>C11: A microphone request that is granted after the microphone was switched off again is
  not dropped: the microphone is live and enabled and part of what is broadcast while the page,
  its badge and its last report say it is muted.\<close>

theorem late_microphone_grant:
  assumes "page_reach p" "activeStream p = Some s" "micStream p = None" "MicRequest \<notin> set (waiting p)" "isMicMuted p"
  shows "\<exists>q t. page_reach q \<and> isMicMuted q \<and> last (reports q) = [(''micMuted'', True)] \<and> waiting q = waiting p \<and>
    (\<exists>s'. activeStream q = Some s' \<and> t \<in> set s') \<and> micStream q = Some [t] \<and> live (tracks q t) \<and> enabled (tracks q t)"
proof -
  let ?p1 = "setMicEnabled True p"
  let ?p2 = "setMicEnabled False ?p1"
  let ?q = "mic_done True (resolve MicRequest ?p2)"
  have w: "waiting (resolve MicRequest ?p2) = waiting p"
    using assms(3,4) by (simp add: setMic_request remove1_append)
  have a: "activeStream (resolve MicRequest ?p2) = Some s" using assms(2) by simp
  have "page_reach (run_page [Action Frozen ''toggle_mic'', Action Frozen ''toggle_mic'', MicDone True] p)"
    by (rule page_reach_run [OF assms(1)])
       (use assms(3,5) in \<open>simp add: possible_def handle_def poll_action_def setMic_request\<close>)
  then have "page_reach ?q"
    using assms(5) by (simp add: handle_def poll_action_def)
  then show ?thesis
    using mic_done_fields [OF a] w
    by (intro exI [of _ ?q] exI [of _ "next_track p"]) simp
qed

lemma other_mic_fields [simp]:
  "micStream (loopback_done r vs p) = micStream p" "isMicMuted (loopback_done r vs p) = isMicMuted p"
  "micStream (togglePause f p) = micStream p" "isMicMuted (togglePause f p) = isMicMuted p"
  "micStream (toggleSoundMute p) = micStream p" "isMicMuted (toggleSoundMute p) = isMicMuted p"
  by (auto simp: loopback_done_def case_prod_beta togglePause_def freeze_frame_def Let_def toggleSoundMute_def
      split: option.splits freeze.splits)

lemma other_waiting [simp]:
  "waiting (loopback_done r vs p) = waiting p" "waiting (togglePause f p) = waiting p"
  "waiting (toggleSoundMute p) = waiting p"
  by (auto simp: loopback_done_def case_prod_beta togglePause_def freeze_frame_def Let_def toggleSoundMute_def new_tracks_fields
      split: option.splits freeze.splits)

lemma set_waiting_display: "set (waiting (display_done r p)) \<subseteq> insert (Loopback [next_track p]) (set (waiting p))"
  by (auto simp: display_done_def case_prod_beta new_tracks_fields split: option.splits)

lemma mic_reports:
  "\<exists>rs. reports (loopback_done r vs p) = reports p @ rs \<and> (\<forall>x \<in> set rs. (''micMuted'', b) \<in> set x \<longrightarrow> b = isMicMuted p)"
  "\<exists>rs. reports (display_done r p) = reports p @ rs \<and> (\<forall>x \<in> set rs. (''micMuted'', b) \<in> set x \<longrightarrow> b = isMicMuted p)"
  "\<exists>rs. reports (togglePause f p) = reports p @ rs \<and> (\<forall>x \<in> set rs. (''micMuted'', b) \<in> set x \<longrightarrow> b = isMicMuted p)"
  "\<exists>rs. reports (toggleSoundMute p) = reports p @ rs \<and> (\<forall>x \<in> set rs. (''micMuted'', b) \<in> set x \<longrightarrow> b = isMicMuted p)"
  by (auto simp: loopback_done_def display_done_def case_prod_beta togglePause_def freeze_frame_def Let_def toggleSoundMute_def full_report_def
      split: option.splits freeze.splits)

definition mic_untouched :: "page \<Rightarrow> bool" where
  "mic_untouched p \<longleftrightarrow> \<not> isMicMuted p \<and> micStream p = None \<and> MicRequest \<notin> set (waiting p) \<and>
     (\<forall>x \<in> set (reports p). (''micMuted'', True) \<notin> set x)"

definition is_mic_toggle :: "event \<Rightarrow> bool" where
  "is_mic_toggle e \<longleftrightarrow> (case e of Action f a \<Rightarrow> a = ''toggle_mic'' | _ \<Rightarrow> False)"

lemma mic_untouched_reports:
  assumes "mic_untouched p" "micStream q = micStream p" "isMicMuted q = isMicMuted p" "MicRequest \<notin> set (waiting q)"
    "\<exists>rs. reports q = reports p @ rs \<and> (\<forall>x \<in> set rs. (''micMuted'', True) \<in> set x \<longrightarrow> True = isMicMuted p)"
  shows "mic_untouched q"
  using assms by (auto simp: mic_untouched_def)

lemma mic_untouched_handle:
  assumes "mic_untouched p" "possible e p" "\<not> is_mic_toggle e"
  shows "mic_untouched (handle e p)"
proof (cases e)
  case (Action f a)
  have w: "MicRequest \<notin> set (waiting p)" using assms(1) by (simp add: mic_untouched_def)
  have "mic_untouched (togglePause f p)" "mic_untouched (toggleSoundMute p)"
    by (intro mic_untouched_reports [OF assms(1)] mic_reports(3,4) other_mic_fields; simp add: w)+
  moreover have "mic_untouched (startShare p)" "mic_untouched (stopShare p)"
    using assms(1) by (auto simp: mic_untouched_def)
  ultimately show ?thesis
    using assms(1,3) Action by (simp add: handle_def poll_action_def is_mic_toggle_def)
next
  case (DisplayDone r)
  have "MicRequest \<notin> set (waiting (resolve Display p))"
    using assms(1) by (auto simp: mic_untouched_def dest: notin_set_remove1)
  with set_waiting_display [of r "resolve Display p"] mic_reports(2) [of r "resolve Display p" True] show ?thesis
    unfolding DisplayDone handle_def event.case
    by (intro mic_untouched_reports [OF assms(1)]) auto
next
  case (LoopbackDone r vs)
  have "MicRequest \<notin> set (waiting (resolve (Loopback vs) p))"
    using assms(1) by (auto simp: mic_untouched_def dest: notin_set_remove1)
  with mic_reports(1) [of r vs "resolve (Loopback vs) p" True] show ?thesis
    unfolding LoopbackDone handle_def event.case
    by (intro mic_untouched_reports [OF assms(1)]) auto
qed (use assms in \<open>auto simp: handle_def mic_untouched_def possible_def\<close>)

text \<open>Until the microphone button is used for the first time the page says the microphone is
  on, in its flag, its badge and every report, and no microphone was ever asked for.\<close>

lemma microphone_on_but_not_captured:
  assumes "all_possible es init_page" "\<forall>e \<in> set es. \<not> is_mic_toggle e"
  shows "\<not> isMicMuted (run_page es init_page) \<and> micStream (run_page es init_page) = None \<and>
    MicRequest \<notin> set (waiting (run_page es init_page)) \<and>
    (\<forall>x \<in> set (reports (run_page es init_page)). (''micMuted'', True) \<notin> set x)"
proof -
  have "mic_untouched (run_page es p)" if "mic_untouched p" "all_possible es p" "\<forall>e \<in> set es. \<not> is_mic_toggle e" for p
    using that by (induction es arbitrary: p) (simp_all add: mic_untouched_handle)
  from this [of init_page] assms show ?thesis by (simp add: mic_untouched_def)
qed

theorem late_microphone_grant_witness:
  "\<exists>q t. page_reach q \<and> isMicMuted q \<and> last (reports q) = [(''micMuted'', True)] \<and>
    waiting q = waiting (setMicEnabled False (display_done (Some 1) (resolve Display (ws_onopen init_page)))) \<and>
    (\<exists>s'. activeStream q = Some s' \<and> t \<in> set s') \<and> micStream q = Some [t] \<and> live (tracks q t) \<and> enabled (tracks q t)"
proof (rule late_microphone_grant)
  show "page_reach (setMicEnabled False (display_done (Some 1) (resolve Display (ws_onopen init_page))))"
    by (rule run_reach [of "[WsOpen, DisplayDone (Some 1), Action Frozen ''toggle_mic'']"])
       (simp_all add: handle_def possible_def poll_action_def)
qed simp_all

section \<open>Connections\<close>

text \<open>The sessions the page has a connection for.\<close>

definition peer_ids :: "page \<Rightarrow> string set" where
  "peer_ids p = fst ` set (peerConnections p)"

lemma peer_ids_map [simp]: "fst ` apsnd f ` S = fst ` S"
  by (force simp: image_iff)

lemma peer_ids_functions:
  "peer_ids (stopShare p) = peer_ids p" "peer_ids (togglePause f p) = peer_ids p" "peer_ids (setMicEnabled en p) = peer_ids p"
  "peer_ids (toggleSoundMute p) = peer_ids p" "peer_ids (startShare p) = peer_ids p" "peer_ids (mic_done g p) = peer_ids p"
  "peer_ids (display_done r p) = peer_ids p" "peer_ids (loopback_done r' vs p) = peer_ids p"
  "peer_ids (resolve a p) = peer_ids p" "peer_ids (stop_tracks ts p) = peer_ids p"
  "peer_ids (ws_onopen p) = peer_ids p" "peer_ids (ws_onclose p) = peer_ids p"
proof -
  note defs = peer_ids_def Let_def case_prod_beta new_tracks_fields
  show "peer_ids (stopShare p) = peer_ids p" "peer_ids (startShare p) = peer_ids p" "peer_ids (resolve a p) = peer_ids p"
    "peer_ids (stop_tracks ts p) = peer_ids p" "peer_ids (ws_onopen p) = peer_ids p" "peer_ids (ws_onclose p) = peer_ids p"
    by (simp_all add: peer_ids_def)
  show "peer_ids (togglePause f p) = peer_ids p"
    by (simp add: togglePause_def freeze_frame_def defs split: option.split freeze.split)
  show "peer_ids (setMicEnabled en p) = peer_ids p"
    by (simp add: setMicEnabled_def report_mic_def defs split: option.split)
  show "peer_ids (toggleSoundMute p) = peer_ids p"
    by (simp add: toggleSoundMute_def defs split: option.split)
  show "peer_ids (mic_done g p) = peer_ids p"
    by (simp add: mic_done_def report_mic_def add_sender_def defs split: option.split)
  show "peer_ids (display_done r p) = peer_ids p"
    by (simp add: display_done_def defs split: option.split)
  show "peer_ids (loopback_done r' vs p) = peer_ids p"
    by (simp add: loopback_done_def defs split: option.split)
qed

text \<open>
  Nothing but the message endshare closes a connection, not even stopShare: as the server tells
  only the viewers when the host stops, the page keeps every connection of the broadcasts before.
\<close>

lemma connections_kept:
  assumes "sid \<in> peer_ids p" "e \<noteq> EndShare sid"
  shows "sid \<in> peer_ids (handle e p)"
proof (cases e)
  case (Session s)
  then show ?thesis using assms(1)
    by (auto simp: handle_def hostsession_def Let_def peer_ids_def dom_map_of_conv_image_fst [symmetric] update_conv')
next
  case (EndShare s)
  then show ?thesis using assms
    by (auto simp: handle_def endshare_def peer_ids_def AList.delete_eq image_iff)
qed (use assms in \<open>simp_all add: handle_def poll_action_def peer_ids_functions\<close>)

section \<open>The overlay\<close>

lemma overlay_functions:
  "page_overlay (stopShare p)" "page_overlay (togglePause f p) = page_overlay p" "page_overlay (setMicEnabled en p) = page_overlay p"
  "page_overlay (toggleSoundMute p) = page_overlay p" "page_overlay (startShare p) = page_overlay p"
  "page_overlay (mic_done g p) = page_overlay p" "page_overlay (finish_share s p) = False"
  "page_overlay (resolve a p) = page_overlay p" "page_overlay (stop_tracks ts p) = page_overlay p"
  "page_overlay (set_enabled b ts p) = page_overlay p" "page_overlay (snd (new_tracks k n p)) = page_overlay p"
  "page_overlay (ws_onopen p) = page_overlay p" "page_overlay (ws_onclose p) = page_overlay p"
  "page_overlay (hostsession sid p) = page_overlay p" "page_overlay (endshare sid p) = page_overlay p"
proof -
  have b: "page_overlay (updateHostBadge p) = page_overlay p" "page_overlay (post_report r p) = page_overlay p"
    "page_overlay (ws_send m p) = page_overlay p" "page_overlay (set_enabled b ts p) = page_overlay p"
    "page_overlay (stop_tracks ts p) = page_overlay p" "page_overlay (snd (new_tracks k n p)) = page_overlay p"
    "page_overlay (replace_video t p) = page_overlay p" "page_overlay (add_sender t p) = page_overlay p"
    for r m b ts k n t p
    by (simp_all add: updateHostBadge_def post_report_def ws_send_def set_enabled_def stop_tracks_def new_tracks_def
        replace_video_def add_sender_def)
  have c: "page_overlay (clear_pause p) = page_overlay p" for p
    by (simp add: clear_pause_def Let_def b split: option.split)
  note defs = b c Let_def case_prod_beta
  show "page_overlay (stopShare p)" by (simp add: stopShare_def defs)
  show "page_overlay (togglePause f p) = page_overlay p"
    by (simp add: togglePause_def freeze_frame_def defs split: option.split freeze.split)
  show "page_overlay (setMicEnabled en p) = page_overlay p"
    by (simp add: setMicEnabled_def report_mic_def defs split: option.split)
  show "page_overlay (toggleSoundMute p) = page_overlay p"
    by (simp add: toggleSoundMute_def defs split: option.split)
  show "page_overlay (mic_done g p) = page_overlay p"
    by (simp add: mic_done_def report_mic_def defs split: option.split)
  show "page_overlay (finish_share s p) = False" by (simp add: finish_share_def defs)
qed (simp_all add: startShare_def resolve_def set_enabled_def stop_tracks_def new_tracks_def ws_onopen_def ws_onclose_def
      ws_send_def hostsession_def endshare_def Let_def)

lemma overlay_shares:
  "page_overlay (display_done r p) = (if r = None \<or> r = Some 0 then page_overlay p else False)"
  "page_overlay (loopback_done r vs p) = False"
  by (auto simp: display_done_def loopback_done_def post_report_def overlay_functions case_prod_beta new_tracks_def split: option.split)

lemma active_functions:
  "activeStream (display_done r p) = None \<longleftrightarrow> (r = None \<or> r = Some 0) \<and> activeStream p = None"
  "activeStream (loopback_done r vs p) \<noteq> None" "activeStream (togglePause f p) = activeStream p"
  "activeStream (toggleSoundMute p) = activeStream p"
  "activeStream (mic_done g p) = None \<longleftrightarrow> activeStream p = None"
  by (auto simp: display_done_def loopback_done_def togglePause_def freeze_frame_def toggleSoundMute_def mic_done_def
      report_mic_def add_sender_def Let_def case_prod_beta new_tracks_fields split: option.split freeze.split)

lemma overlay_step: "page_overlay p = (activeStream p = None) \<Longrightarrow> page_overlay (handle e p) = (activeStream (handle e p) = None)"
  by (cases e) (auto simp: handle_def poll_action_def overlay_functions overlay_shares active_functions)

text \<open>The overlay of the page is shown exactly while nothing is broadcast.\<close>

lemma overlay_idle: "page_reach p \<Longrightarrow> page_overlay p \<longleftrightarrow> activeStream p = None"
proof (induction rule: page_reach.induct)
  case (step p e)
  then show ?case by (intro overlay_step) simp
qed (simp add: init_page_def)

section \<open>The hidden video\<close>

lemma hidden_basic:
  "hiddenHostVideo (updateHostBadge p) = hiddenHostVideo p" "hiddenHostVideo (post_report r p) = hiddenHostVideo p"
  "hiddenHostVideo (ws_send m p) = hiddenHostVideo p" "hiddenHostVideo (set_enabled b ts p) = hiddenHostVideo p"
  "hiddenHostVideo (stop_tracks ts p) = hiddenHostVideo p" "hiddenHostVideo (snd (new_tracks k n p)) = hiddenHostVideo p"
  "hiddenHostVideo (replace_video t p) = hiddenHostVideo p" "hiddenHostVideo (add_sender t p) = hiddenHostVideo p"
  "hiddenHostVideo (resolve a p) = hiddenHostVideo p" "hiddenHostVideo (startShare p) = hiddenHostVideo p"
  "hiddenHostVideo (finish_share s p) = Some s" "activeStream (add_sender t p) = activeStream p"
  by (simp_all add: updateHostBadge_def post_report_def ws_send_def set_enabled_def stop_tracks_def new_tracks_def
      replace_video_def add_sender_def resolve_def startShare_def finish_share_def Let_def)

definition shows_capture :: "page \<Rightarrow> bool" where
  "shows_capture p \<longleftrightarrow> (\<forall>s. activeStream p = Some s \<longrightarrow> (\<exists>h. hiddenHostVideo p = Some h \<and> h \<noteq> [] \<and> s \<noteq> [] \<and> hd h = hd s))"

lemma shows_functions:
  "hiddenHostVideo (stopShare p) = hiddenHostVideo p" "hiddenHostVideo (togglePause f p) = hiddenHostVideo p"
  "hiddenHostVideo (setMicEnabled en p) = hiddenHostVideo p" "hiddenHostVideo (toggleSoundMute p) = hiddenHostVideo p"
  "hiddenHostVideo (ws_onopen p) = hiddenHostVideo p" "hiddenHostVideo (ws_onclose p) = hiddenHostVideo p"
  "hiddenHostVideo (hostsession sid p) = hiddenHostVideo p" "hiddenHostVideo (endshare sid p) = hiddenHostVideo p"
proof -
  have c: "hiddenHostVideo (clear_pause p) = hiddenHostVideo p" for p
    by (simp add: clear_pause_def Let_def hidden_basic split: option.split)
  show "hiddenHostVideo (stopShare p) = hiddenHostVideo p"
    by (simp add: stopShare_def Let_def hidden_basic c split: option.split)
  show "hiddenHostVideo (togglePause f p) = hiddenHostVideo p"
    by (simp add: togglePause_def freeze_frame_def Let_def hidden_basic c case_prod_beta split: option.split freeze.split)
  show "hiddenHostVideo (setMicEnabled en p) = hiddenHostVideo p"
    by (simp add: setMicEnabled_def report_mic_def Let_def hidden_basic split: option.split)
  show "hiddenHostVideo (toggleSoundMute p) = hiddenHostVideo p"
    by (simp add: toggleSoundMute_def Let_def hidden_basic split: option.split)
qed (simp_all add: ws_onopen_def ws_onclose_def hostsession_def endshare_def startShare_def ws_send_def Let_def)

lemma shows_keep: "activeStream q = activeStream p \<Longrightarrow> hiddenHostVideo q = hiddenHostVideo p \<Longrightarrow> shows_capture p \<Longrightarrow> shows_capture q"
  by (simp add: shows_capture_def)

lemma shows_captures:
  "shows_capture p \<Longrightarrow> shows_capture (display_done r p)" "vs \<noteq> [] \<Longrightarrow> shows_capture (loopback_done r vs p)"
  "shows_capture p \<Longrightarrow> shows_capture (mic_done g p)"
proof -
  show "vs \<noteq> [] \<Longrightarrow> shows_capture (loopback_done r vs p)"
    by (auto simp: shows_capture_def loopback_done_def case_prod_beta hidden_basic split: option.split)
  show "shows_capture p \<Longrightarrow> shows_capture (display_done r p)"
    by (cases r) (auto simp: shows_capture_def display_done_def case_prod_beta hidden_basic new_tracks_fields)
  show "shows_capture p \<Longrightarrow> shows_capture (mic_done g p)"
    by (auto simp: shows_capture_def mic_done_def report_mic_def Let_def case_prod_beta hidden_basic new_tracks_fields split: option.split)
qed

text \<open>
  The hidden video, from which a pause takes its picture, plays the capture that is broadcast.
\<close>

lemma shows_handle:
  assumes "page_inv p" "possible e p" "shows_capture p"
  shows "shows_capture (handle e p)"
proof (cases e)
  case (DisplayDone r)
  have "shows_capture (resolve Display p)" using assms(3) by (simp add: shows_capture_def hidden_basic)
  then show ?thesis using DisplayDone shows_captures(1) by (simp add: handle_def)
next
  case (LoopbackDone r vs)
  then have "stream_ok (\<lambda>t. kind (tracks p t)) (next_track p) vs"
    using assms(1,2) inv_ofD(2) by (auto simp: page_inv_def possible_def)
  then show ?thesis using LoopbackDone shows_captures(2) by (auto simp: handle_def stream_ok_def)
next
  case (MicDone g)
  have "shows_capture (resolve MicRequest p)" using assms(3) by (simp add: shows_capture_def hidden_basic)
  then show ?thesis using MicDone shows_captures(3) by (simp add: handle_def)
next
  case (Action f a)
  then show ?thesis using assms(3)
    by (auto simp: handle_def poll_action_def shows_capture_def shows_functions hidden_basic active_functions)
qed (use assms(3) in \<open>auto simp: handle_def shows_capture_def shows_functions hidden_basic\<close>)

lemma hidden_video_current:
  assumes "page_reach p" "activeStream p = Some s"
  shows "\<exists>h. hiddenHostVideo p = Some h \<and> hd h = hd s"
proof -
  have "page_inv p \<and> shows_capture p" using assms(1)
  proof (induction rule: page_reach.induct)
    case init
    show ?case using page_inv_reach [OF page_reach.init] by (simp add: shows_capture_def init_page_def)
  next
    case (step p e)
    then show ?case using page_inv_handle shows_handle by blast
  qed
  then show ?thesis using assms(2) by (auto simp: shows_capture_def)
qed

end
