(* ===== verification/Host_System.thy ===== *)
theory Host_System
  imports Gui_Overlay Failsafe_Host
begin

text \<open>
  The host as a whole: the toolbar and the bridge of the Python process and the broadcasting
  page, which polls the bridge and posts its reports to it. Reports reach the bridge in the
  order the page posts them. The state of the page counts the reports posted so far; a number
  says how many of them have arrived.
\<close>

section \<open>State and steps\<close>

record host =
  page_of :: page
  bridge_of :: bridge
  toolbar_of :: toolbar
  arrived :: nat

definition init_host :: host where
  "init_host = \<lparr>page_of = init_page, bridge_of = initial_bridge, toolbar_of = init_toolbar, arrived = 0\<rparr>"

datatype host_event = Gui gui_event | Poll freeze | Arrive | PageEvent event

definition in_flight :: "host \<Rightarrow> report list" where
  "in_flight h = drop (arrived h) (reports (page_of h))"

definition report_body :: "report \<Rightarrow> pyval" where
  "report_body r = PDict (map (\<lambda>(k, b). (k, PBool b)) r)"

definition is_action :: "event \<Rightarrow> bool" where
  "is_action e \<longleftrightarrow> (case e of Action f a \<Rightarrow> True | _ \<Rightarrow> False)"

definition host_possible :: "host_event \<Rightarrow> host \<Rightarrow> bool" where
  "host_possible e h =
     (case e of
        Gui g \<Rightarrow> gui_enabled g (toolbar_of h)
      | Poll f \<Rightarrow> True
      | Arrive \<Rightarrow> in_flight h \<noteq> []
      | PageEvent e \<Rightarrow> \<not> is_action e \<and> possible e (page_of h))"

text \<open>The poll of the page: the bridge answers with the pending action, and the page performs it.\<close>

definition poll_step :: "freeze \<Rightarrow> host \<Rightarrow> host" where
  "poll_step f h =
     (case do_GET ''/poll'' (bridge_of h) of (r, b) \<Rightarrow>
        h\<lparr>bridge_of := b,
          page_of := (case body r of BAction a \<Rightarrow> handle (Action f a) (page_of h) | _ \<Rightarrow> page_of h)\<rparr>)"

definition arrive_step :: "(bool \<Rightarrow> cmds) \<Rightarrow> host \<Rightarrow> host" where
  "arrive_step mute h =
     h\<lparr>bridge_of := fst (state_request mute (report_body (hd (in_flight h))) (bridge_of h)), arrived := arrived h + 1\<rparr>"

definition host_step :: "host_env \<Rightarrow> (bool \<Rightarrow> cmds) \<Rightarrow> host_event \<Rightarrow> host \<Rightarrow> host" where
  "host_step env mute e h =
     (case e of
        Gui g \<Rightarrow> (case fst (gui_handle env mute g (toolbar_of h, bridge_of h)) of (t, b) \<Rightarrow>
          h\<lparr>toolbar_of := t, bridge_of := b\<rparr>)
      | Poll f \<Rightarrow> poll_step f h
      | Arrive \<Rightarrow> arrive_step mute h
      | PageEvent e \<Rightarrow> h\<lparr>page_of := handle e (page_of h)\<rparr>)"

text \<open>
  Runs of the host, and those in which no button that sets an action is pressed while an
  action is still waiting for the poll of the page.
\<close>

definition sets_action :: "host_event \<Rightarrow> bool" where
  "sets_action e \<longleftrightarrow> e \<in> Gui ` {ClickShare, ClickPause, ClickSound, ClickMic}"

inductive host_reach :: "host_env \<Rightarrow> (bool \<Rightarrow> cmds) \<Rightarrow> host \<Rightarrow> bool" for env mute where
  init: "host_reach env mute init_host"
| step: "host_reach env mute h \<Longrightarrow> host_possible e h \<Longrightarrow> host_reach env mute (host_step env mute e h)"

inductive patient_reach :: "host_env \<Rightarrow> (bool \<Rightarrow> cmds) \<Rightarrow> host \<Rightarrow> bool" for env mute where
  init: "patient_reach env mute init_host"
| step: "patient_reach env mute h \<Longrightarrow> host_possible e h \<Longrightarrow>
    (sets_action e \<longrightarrow> pending_action (bridge_of h) = None) \<Longrightarrow> patient_reach env mute (host_step env mute e h)"

section \<open>Log messages of the page\<close>

text \<open>
  The body that sendDebugLog posts, and what the bridge writes for it. Arrays and objects are true
  in the script, empty ones as well, but not in Python.
\<close>

definition js_truthy :: "pyval \<Rightarrow> bool" where
  "js_truthy v = (case v of PList xs \<Rightarrow> True | PDict kvs \<Rightarrow> True | _ \<Rightarrow> truthy v)"

definition sendDebugLog :: "string \<Rightarrow> pyval option \<Rightarrow> pyval" where
  "sendDebugLog msg dt =
     PDict [(''msg'', PStr (''[Failsafe] '' @ msg)),
       (''detail'', case dt of Some v \<Rightarrow> if js_truthy v then v else PNone | None \<Rightarrow> PNone)]"

lemma log_of_page:
  "log_request (Some (sendDebugLog msg dt)) =
     [LogBrowser (PStr (''[Failsafe] '' @ msg)) (case dt of Some v \<Rightarrow> if truthy v then Some v else None | None \<Rightarrow> None)]"
  by (cases dt) (auto simp: log_request_def sendDebugLog_def dict_get_def js_truthy_def split: pyval.split)

section \<open>The value of a flag once all reports have arrived\<close>

definition upd :: "string \<Rightarrow> report \<Rightarrow> bool \<Rightarrow> bool" where
  "upd k r b = (case map_of (rev r) k of Some v \<Rightarrow> v | None \<Rightarrow> b)"

definition settled :: "string \<Rightarrow> host \<Rightarrow> bool" where
  "settled k h = fold (upd k) (in_flight h) (flag (app_state (bridge_of h)) k)"

lemma rev_map_bool: "map_of (rev (map (\<lambda>(k, b). (k, PBool b)) r)) k = map_option PBool (map_of (rev r) k)"
proof -
  have "map_of (map (\<lambda>(k, b). (k, PBool b)) xs) k = map_option PBool (map_of xs k)" for xs
    by (induction xs) auto
  then show ?thesis by (simp add: rev_map)
qed

lemma report_body_flag:
  "flag (app_state (fst (state_request mute (report_body r) b))) k = upd k r (flag (app_state b) k)"
proof -
  have "app_state (fst (state_request mute (report_body r) b)) =
      (\<lambda>k. case k of KStr s \<Rightarrow> (case dict_get (map (\<lambda>(k, b). (k, PBool b)) r) s of Some v \<Rightarrow> Some v | None \<Rightarrow> app_state b k)
        | _ \<Rightarrow> app_state b k)"
    by (simp add: state_request_def report_body_def update_app_state_def dict_update_def fold_update_dict)
  then show ?thesis
    by (simp add: flag_def state_get_def dict_get_def rev_map_bool upd_def split: option.splits)
qed

lemma settled_arrive:
  assumes "in_flight h \<noteq> []"
  shows "settled k (arrive_step mute h) = settled k h"
proof -
  obtain r rs where r: "in_flight h = r # rs" using assms by (cases "in_flight h") auto
  have "in_flight (arrive_step mute h) = rs"
    using r by (simp add: in_flight_def arrive_step_def) (metis drop_Suc list.sel(3) tl_drop)
  then show ?thesis
    by (simp add: settled_def r) (simp add: arrive_step_def r report_body_flag)
qed

section \<open>Reports of the page\<close>

text \<open>The reports an event adds give a flag only its value after the event.\<close>

definition reports_agree :: "string \<Rightarrow> bool \<Rightarrow> page \<Rightarrow> page \<Rightarrow> bool" where
  "reports_agree k v p q \<longleftrightarrow> (\<exists>rs. reports q = reports p @ rs \<and> (\<forall>r \<in> set rs. map_of (rev r) k \<in> {None, Some v}))"

lemma fold_upd_agree: "\<forall>r \<in> set rs. map_of (rev r) k \<in> {None, Some v} \<Longrightarrow> fold (upd k) rs v = v"
  by (induction rs) (auto simp: upd_def)

lemma settled_agree:
  assumes "reports_agree k v (page_of h) q" "settled k h = v" "arrived h \<le> length (reports (page_of h))"
  shows "settled k (h\<lparr>page_of := q\<rparr>) = v"
  using assms by (auto simp: reports_agree_def settled_def in_flight_def fold_upd_agree)

lemma settled_last:
  assumes "reports q = reports (page_of h) @ rs @ [r]" "map_of (rev r) k = Some v" "arrived h \<le> length (reports (page_of h))"
  shows "settled k (h\<lparr>page_of := q\<rparr>) = v"
  using assms by (simp add: settled_def in_flight_def upd_def)

lemma reports_agree_refl [simp]: "reports q = reports p \<Longrightarrow> reports_agree k v p q"
  by (simp add: reports_agree_def)


lemma sound_kept [simp]:
  "isSoundMuted (loopback_done r vs p) = isSoundMuted p" "isSoundMuted (togglePause f p) = isSoundMuted p"
  "isSoundMuted (mic_done g p) = isSoundMuted p"
  by (auto simp: loopback_done_def case_prod_beta togglePause_def freeze_frame_def Let_def mic_done_def report_mic_def add_sender_def
      split: option.splits freeze.splits)

lemma full_report_flags:
  "map_of (rev (full_report p)) ''soundMuted'' = Some (isSoundMuted p)"
  "map_of (rev (full_report p)) ''micMuted'' = Some (isMicMuted p)"
  by (simp_all add: full_report_def)

lemma share_reports:
  "\<exists>rs. reports (display_done r p) = reports p @ rs \<and>
     (\<forall>x \<in> set rs. map_of (rev x) ''soundMuted'' \<in> {None, Some (isSoundMuted p)} \<and>
        map_of (rev x) ''micMuted'' \<in> {None, Some (isMicMuted p)})"
  "\<exists>rs. reports (loopback_done r vs p) = reports p @ rs \<and>
     (\<forall>x \<in> set rs. map_of (rev x) ''soundMuted'' \<in> {None, Some (isSoundMuted p)} \<and>
        map_of (rev x) ''micMuted'' \<in> {None, Some (isMicMuted p)})"
  "\<exists>rs. reports (togglePause f p) = reports p @ rs \<and>
     (\<forall>x \<in> set rs. map_of (rev x) ''soundMuted'' \<in> {None, Some (isSoundMuted p)} \<and>
        map_of (rev x) ''micMuted'' \<in> {None, Some (isMicMuted p)})"
  by (auto simp: display_done_def loopback_done_def case_prod_beta togglePause_def freeze_frame_def Let_def full_report_def
      split: option.splits freeze.splits)

lemma mic_reports_sound:
  "reports_agree ''soundMuted'' v p (setMicEnabled en p)" "reports_agree ''soundMuted'' v p (mic_done g p)"
  by (auto simp: reports_agree_def setMicEnabled_def mic_done_def report_mic_def Let_def case_prod_beta add_sender_def
      split: option.splits)

lemma handle_sound:
  assumes "\<not> (\<exists>f. e = Action f ''toggle_sound'')"
  shows "isSoundMuted (handle e p) = isSoundMuted p" "reports_agree ''soundMuted'' (isSoundMuted p) p (handle e p)"
proof -
  show "isSoundMuted (handle e p) = isSoundMuted p"
    using assms by (cases e) (auto simp: handle_def poll_action_def)
  show "reports_agree ''soundMuted'' (isSoundMuted p) p (handle e p)"
  proof (cases e)
    case (Action f a)
    have "reports_agree ''soundMuted'' (isSoundMuted p) p (togglePause f p)"
      using share_reports(3) [of f p] unfolding reports_agree_def by blast
    moreover have "reports_agree ''soundMuted'' (isSoundMuted p) p (stopShare p)"
      by (simp add: reports_agree_def)
    ultimately show ?thesis
      using assms Action mic_reports_sound(1) by (simp add: handle_def poll_action_def)
  next
    case (DisplayDone r)
    then show ?thesis
      using share_reports(1) [of r "resolve Display p"] by (auto simp: handle_def reports_agree_def)
  next
    case (LoopbackDone r vs)
    then show ?thesis
      using share_reports(2) [of r vs "resolve (Loopback vs) p"] by (auto simp: handle_def reports_agree_def)
  next
    case (MicDone g)
    then show ?thesis
      using mic_reports_sound(2) [of "isSoundMuted p" "resolve MicRequest p" g] by (auto simp: handle_def reports_agree_def)
  qed (auto simp: handle_def reports_agree_def)
qed

lemma toggle_sound_report:
  "reports (toggleSoundMute p) = reports p @ [[(''soundMuted'', \<not> isSoundMuted p)]]"
  "isSoundMuted (toggleSoundMute p) = (\<not> isSoundMuted p)"
  by (auto simp: toggleSoundMute_def Let_def split: option.splits)

lemma reports_grow: "\<exists>rs. reports (handle e p) = reports p @ rs"
proof (cases "\<exists>f. e = Action f ''toggle_sound''")
  case True
  then show ?thesis by (auto simp: handle_def poll_action_def toggle_sound_report)
next
  case False
  from handle_sound(2) [OF this, of p] show ?thesis unfolding reports_agree_def by blast
qed

text \<open>The last report an event adds gives the flag its value after the event.\<close>

definition tells :: "string \<Rightarrow> bool \<Rightarrow> page \<Rightarrow> page \<Rightarrow> bool" where
  "tells k v p q \<longleftrightarrow> (\<exists>rs r. reports q = reports p @ rs @ [r] \<and> map_of (rev r) k = Some v)"

lemma settled_tells:
  assumes "tells k v (page_of h) q" "arrived h \<le> length (reports (page_of h))"
  shows "settled k (h\<lparr>page_of := q\<rparr>) = v"
  using assms settled_last unfolding tells_def by blast

section \<open>Steps of the toolbar\<close>

lemma gui_flags:
  assumes "fst (gui_handle env mute g (t, b)) = (t', b')"
  shows "g \<noteq> ClickSound \<Longrightarrow> flag (app_state b') ''soundMuted'' = flag (app_state b) ''soundMuted''"
    and "g \<noteq> ClickMic \<Longrightarrow> flag (app_state b') ''micMuted'' = flag (app_state b) ''micMuted''"
    and "pending_action b' = (case g of
        ClickShare \<Rightarrow> Some (if flag (app_state b) ''sharing'' then ''stop_share'' else ''start_share'')
      | ClickPause \<Rightarrow> Some ''toggle_pause'' | ClickSound \<Rightarrow> Some ''toggle_sound'' | ClickMic \<Rightarrow> Some ''toggle_mic''
      | _ \<Rightarrow> pending_action b)"
  using assms
  by (auto simp: gui_handle_def toggle_share_def trigger_pause_def toggle_sound_def toggle_mic_def Let_def case_prod_beta
      set_pending_action_def split: gui_event.splits if_splits)

lemma poll_step_eq:
  "poll_step f h = h\<lparr>bridge_of := (bridge_of h)\<lparr>pending_action := None\<rparr>,
     page_of := handle (Action f (answer_text (pending_action (bridge_of h)))) (page_of h)\<rparr>"
proof -
  have "clean_path ''/poll'' = ''/poll''" by code_simp
  then show ?thesis
    by (simp add: poll_step_def do_GET_def get_pending_action_def answer_text_def)
qed

lemma settled_bridge:
  "settled k (h\<lparr>toolbar_of := t\<rparr>) = settled k h"
  "flag (app_state b) k = flag (app_state (bridge_of h)) k \<Longrightarrow> settled k (h\<lparr>bridge_of := b\<rparr>) = settled k h"
  by (simp_all add: settled_def in_flight_def)

section \<open>Flags that both processes keep\<close>

text \<open>
  The contract for a flag that a button of the toolbar inverts in the bridge and an action
  inverts in the page: the page tells the bridge of the change, at the latest when it is no
  longer busy with it, and nothing else changes the flag on either side.
\<close>

locale shared_flag =
  fixes key act :: string and click :: gui_event and val busy :: "page \<Rightarrow> bool"
  assumes act_name: "act \<noteq> []" "act \<noteq> ''none''"
    and click_act: "fst (gui_handle env mute click (t, b)) = (t', b') \<Longrightarrow> pending_action b' = Some act"
    and click_only: "fst (gui_handle env mute g (t, b)) = (t', b') \<Longrightarrow> g \<noteq> click \<Longrightarrow>
      flag (app_state b') key = flag (app_state b) key"
    and perform: "\<not> busy (handle (Action f act) p) \<Longrightarrow>
      tells key (val (handle (Action f act) p)) p (handle (Action f act) p)"
    and other: "\<not> (\<exists>f. e = Action f act) \<Longrightarrow> possible e p \<Longrightarrow> \<not> busy (handle e p) \<Longrightarrow>
      tells key (val (handle e p)) p (handle e p) \<or>
      (\<not> busy p \<and> val (handle e p) = val p \<and> reports_agree key (val p) p (handle e p))"
begin

definition flag_inv :: "host \<Rightarrow> bool" where
  "flag_inv h \<longleftrightarrow> arrived h \<le> length (reports (page_of h)) \<and>
     (pending_action (bridge_of h) \<noteq> Some act \<longrightarrow> \<not> busy (page_of h) \<longrightarrow> settled key h = val (page_of h))"

lemma page_event:
  assumes "arrived h \<le> length (reports (page_of h))" "\<not> (\<exists>f. e = Action f act)" "possible e (page_of h)"
    "\<not> busy (page_of h) \<Longrightarrow> settled key h = val (page_of h)" "\<not> busy (handle e (page_of h))"
  shows "settled key (h\<lparr>page_of := handle e (page_of h)\<rparr>) = val (handle e (page_of h))"
  using other [OF assms(2,3,5)]
proof
  assume "tells key (val (handle e (page_of h))) (page_of h) (handle e (page_of h))"
  then show ?thesis using assms(1) by (rule settled_tells)
next
  assume "\<not> busy (page_of h) \<and> val (handle e (page_of h)) = val (page_of h) \<and>
    reports_agree key (val (page_of h)) (page_of h) (handle e (page_of h))"
  then show ?thesis using assms(1,4) settled_agree by metis
qed

lemma flag_inv_step:
  assumes "flag_inv h" "host_possible e h" "sets_action e \<longrightarrow> pending_action (bridge_of h) = None"
  shows "flag_inv (host_step env mute e h)"
proof (cases e)
  case (Gui g)
  obtain t b where g: "fst (gui_handle env mute g (toolbar_of h, bridge_of h)) = (t, b)" by fastforce
  have p: "g \<noteq> click \<and> pending_action (bridge_of h) \<noteq> Some act" if "pending_action b \<noteq> Some act"
    using that click_act g gui_flags(3) [OF g] assms(3) Gui by (cases g) (auto simp: sets_action_def)
  have "settled key (h\<lparr>toolbar_of := t, bridge_of := b\<rparr>) = settled key h" if "g \<noteq> click"
    using click_only [OF g that] settled_bridge(2) [of b key "h\<lparr>toolbar_of := t\<rparr>"]
    by (simp add: settled_bridge(1))
  with p show ?thesis
    using assms(1) Gui g by (auto simp: flag_inv_def host_step_def)
next
  case (Poll fr)
  let ?e = "Action fr (answer_text (pending_action (bridge_of h)))"
  let ?h = "h\<lparr>bridge_of := (bridge_of h)\<lparr>pending_action := None\<rparr>\<rparr>"
  obtain rs where rs: "reports (handle ?e (page_of h)) = reports (page_of h) @ rs" using reports_grow by blast
  have "settled key (?h\<lparr>page_of := handle ?e (page_of ?h)\<rparr>) = val (handle ?e (page_of ?h))"
    if n: "\<not> busy (handle ?e (page_of ?h))"
  proof (cases "pending_action (bridge_of h) = Some act")
    case True
    then have "answer_text (pending_action (bridge_of h)) = act" using act_name by (simp add: answer_text_def)
    then show ?thesis
      using perform n assms(1) by (intro settled_tells) (simp_all add: flag_inv_def)
  next
    case False
    then have "answer_text (pending_action (bridge_of h)) \<noteq> act" using act_name by (auto simp: answer_text_def split: option.splits)
    then show ?thesis
      using n assms(1) False
      by (intro page_event) (auto simp: flag_inv_def possible_def settled_bridge(2))
  qed
  then show ?thesis
    using assms(1) rs Poll by (simp add: flag_inv_def host_step_def poll_step_eq)
next
  case Arrive
  then have "in_flight h \<noteq> []" using assms(2) by (simp add: host_possible_def)
  from settled_arrive [OF this] this assms(1) Arrive show ?thesis
    by (auto simp: flag_inv_def host_step_def arrive_step_def in_flight_def)
next
  case (PageEvent ev)
  then have "possible ev (page_of h)" "\<not> (\<exists>f. ev = Action f act)"
    using assms(2) by (auto simp: host_possible_def is_action_def)
  moreover obtain rs where "reports (handle ev (page_of h)) = reports (page_of h) @ rs" using reports_grow by blast
  ultimately show ?thesis
    using page_event [of h ev] assms(1) PageEvent by (auto simp: flag_inv_def host_step_def)
qed

lemma flag_inv_patient:
  assumes "patient_reach env mute h" "flag (app_state initial_bridge) key = val init_page"
  shows "flag_inv h"
  using assms(1)
proof (induction rule: patient_reach.induct)
  case init
  show ?case using assms(2) by (simp add: flag_inv_def init_host_def settled_def in_flight_def)
qed (rule flag_inv_step)

lemma quiescent:
  assumes "patient_reach env mute h" "flag (app_state initial_bridge) key = val init_page"
    "pending_action (bridge_of h) = None" "in_flight h = []" "\<not> busy (page_of h)"
  shows "flag (app_state (bridge_of h)) key = val (page_of h)"
  using flag_inv_patient [OF assms(1,2)] assms(3-5) by (simp add: flag_inv_def settled_def)

end

text \<open>The sound flag; the page is never busy with it.\<close>

interpretation sound_flag: shared_flag "''soundMuted''" "''toggle_sound''" ClickSound isSoundMuted "\<lambda>p. False"
proof unfold_locales
  fix f p
  show "tells ''soundMuted'' (isSoundMuted (handle (Action f ''toggle_sound'') p)) p (handle (Action f ''toggle_sound'') p)"
    by (simp add: handle_def poll_action_def tells_def toggle_sound_report)
next
  fix e p
  assume "\<not> (\<exists>f. e = Action f ''toggle_sound'')"
  from handle_sound [OF this, of p]
  show "tells ''soundMuted'' (isSoundMuted (handle e p)) p (handle e p) \<or>
      (\<not> False \<and> isSoundMuted (handle e p) = isSoundMuted p \<and> reports_agree ''soundMuted'' (isSoundMuted p) p (handle e p))"
    by simp
qed (use gui_flags(1,3) in auto)

lemma toggle_mic_page:
  "(isMicMuted p \<and> micStream p = None \<and> waiting (setMicEnabled (isMicMuted p) p) = waiting p @ [MicRequest]) \<or>
    reports (setMicEnabled (isMicMuted p) p) = reports p @ [[(''micMuted'', \<not> isMicMuted p)]]"
  by (auto simp: setMicEnabled_def report_mic_def Let_def split: option.splits)

lemma mic_done_report: "reports (mic_done g p) = reports p @ [[(''micMuted'', isMicMuted p)]]"
  "isMicMuted (mic_done g p) = isMicMuted p"
  by (auto simp: mic_done_def report_mic_def Let_def case_prod_beta add_sender_def split: option.splits)

lemma waiting_mic_kept:
  "MicRequest \<in> set (waiting p) \<Longrightarrow> MicRequest \<in> set (waiting (display_done r p))"
  by (auto simp: display_done_def case_prod_beta new_tracks_fields split: option.splits)

lemma share_reports_mic:
  "reports_agree ''micMuted'' (isMicMuted p) p (display_done r p)"
  "reports_agree ''micMuted'' (isMicMuted p) p (loopback_done r vs p)"
  "reports_agree ''micMuted'' (isMicMuted p) p (togglePause f p)"
  unfolding reports_agree_def
  using share_reports(1) [of r p] share_reports(2) [of r vs p] share_reports(3) [of f p] by blast+

lemma handle_mic:
  assumes "\<not> (\<exists>f. e = Action f ''toggle_mic'')" "\<not> (\<exists>g. e = MicDone g)"
  shows "isMicMuted (handle e p) = isMicMuted p" "reports_agree ''micMuted'' (isMicMuted p) p (handle e p)"
    "MicRequest \<in> set (waiting p) \<Longrightarrow> MicRequest \<in> set (waiting (handle e p))"
proof -
  have l: "reports_agree ''micMuted'' (isMicMuted p) p (stopShare p)"
    "reports_agree ''micMuted'' (isMicMuted p) p (toggleSoundMute p)"
    by (simp_all add: reports_agree_def toggle_sound_report)
  have r: "MicRequest \<in> set (waiting p) \<Longrightarrow> MicRequest \<in> set (remove1 a (waiting p))" if "a \<noteq> MicRequest" for a
    using that by (simp add: in_set_remove1)
  show "isMicMuted (handle e p) = isMicMuted p"
    using assms by (cases e) (auto simp: handle_def poll_action_def)
  show "reports_agree ''micMuted'' (isMicMuted p) p (handle e p)"
  proof (cases e)
    case (Action f a)
    then show ?thesis using assms share_reports_mic(3) l by (simp add: handle_def poll_action_def)
  next
    case (DisplayDone r)
    then show ?thesis using share_reports_mic(1) [of "resolve Display p" r] by (simp add: handle_def reports_agree_def)
  next
    case (LoopbackDone r vs)
    then show ?thesis using share_reports_mic(2) [of "resolve (Loopback vs) p" r vs] by (simp add: handle_def reports_agree_def)
  qed (use assms in \<open>auto simp: handle_def reports_agree_def\<close>)
  show "MicRequest \<in> set (waiting (handle e p))" if "MicRequest \<in> set (waiting p)"
  proof (cases e)
    case (DisplayDone r')
    then show ?thesis using that r [of Display] waiting_mic_kept [of "resolve Display p" r'] by (simp add: handle_def)
  next
    case (LoopbackDone r' vs)
    then show ?thesis using that r [of "Loopback vs"] by (simp add: handle_def)
  qed (use assms that in \<open>auto simp: handle_def poll_action_def\<close>)
qed

text \<open>The microphone flag; the page is busy with it while it waits for a microphone.\<close>

interpretation mic_flag: shared_flag "''micMuted''" "''toggle_mic''" ClickMic isMicMuted "\<lambda>p. MicRequest \<in> set (waiting p)"
proof unfold_locales
  fix f p
  assume "MicRequest \<notin> set (waiting (handle (Action f ''toggle_mic'') p))"
  then show "tells ''micMuted'' (isMicMuted (handle (Action f ''toggle_mic'') p)) p (handle (Action f ''toggle_mic'') p)"
    using toggle_mic_page [of p] by (auto simp: handle_def poll_action_def tells_def)
next
  fix e p
  assume e: "\<not> (\<exists>f. e = Action f ''toggle_mic'')" "MicRequest \<notin> set (waiting (handle e p))"
  show "tells ''micMuted'' (isMicMuted (handle e p)) p (handle e p) \<or>
      (MicRequest \<notin> set (waiting p) \<and> isMicMuted (handle e p) = isMicMuted p \<and>
       reports_agree ''micMuted'' (isMicMuted p) p (handle e p))"
  proof (cases "\<exists>g. e = MicDone g")
    case True
    then show ?thesis by (auto simp: handle_def tells_def mic_done_report)
  next
    case False
    from handle_mic [OF e(1) False] e(2) show ?thesis by blast
  qed
qed (use gui_flags(2,3) in auto)

section \<open>Properties of the host\<close>



lemma step_page: "page_of (host_step env mute (Gui g) h) = page_of h" "arrived (host_step env mute (Gui g) h) = arrived h"
  by (simp_all add: host_step_def case_prod_beta)

lemma step_event:
  "host_step env mute (PageEvent e) h = h\<lparr>page_of := handle e (page_of h)\<rparr>"
  "host_step env mute (Poll f) h = poll_step f h" "host_step env mute Arrive h = arrive_step mute h"
  by (simp_all add: host_step_def)

lemma step_click_sound:
  fixes env mute h
  defines "h' \<equiv> host_step env mute (Gui ClickSound) h"
  shows "flag (app_state (bridge_of h')) ''soundMuted'' = (\<not> flag (app_state (bridge_of h)) ''soundMuted'')"
    "flag (app_state (bridge_of h')) ''micMuted'' = flag (app_state (bridge_of h)) ''micMuted''"
    "visible (toolbar_of h') = visible (toolbar_of h)"
  by (simp_all add: h'_def host_step_def gui_handle_def toggle_sound_def Let_def case_prod_beta)

lemma step_click_mic:
  fixes env mute h
  defines "h' \<equiv> host_step env mute (Gui ClickMic) h"
  shows "flag (app_state (bridge_of h')) ''soundMuted'' = flag (app_state (bridge_of h)) ''soundMuted''"
    "pending_action (bridge_of h') = Some ''toggle_mic''"
    "caption (sound (toolbar_of h')) = (if flag (app_state (bridge_of h)) ''soundMuted'' then ''Sound Muted'' else ''Computer Sound'')"
  by (simp_all add: h'_def host_step_def gui_handle_def toggle_mic_def Let_def case_prod_beta)
     (simp_all add: set_pending_action_def update_gui_state_def Let_def plain_def)

lemma arrive_fields:
  "page_of (arrive_step mute h) = page_of h" "toolbar_of (arrive_step mute h) = toolbar_of h"
  "pending_action (bridge_of (arrive_step mute h)) = pending_action (bridge_of h)"
  "arrived (arrive_step mute h) = Suc (arrived h)"
  "flag (app_state (bridge_of (arrive_step mute h))) k = upd k (hd (in_flight h)) (flag (app_state (bridge_of h)) k)"
  by (simp_all add: arrive_step_def report_body_flag)

lemma poll_fields:
  "page_of (poll_step f h) = handle (Action f (answer_text (pending_action (bridge_of h)))) (page_of h)"
  "app_state (bridge_of (poll_step f h)) = app_state (bridge_of h)" "pending_action (bridge_of (poll_step f h)) = None"
  "toolbar_of (poll_step f h) = toolbar_of h" "arrived (poll_step f h) = arrived h"
  by (simp_all add: poll_step_eq)

text \<open>The host after the first poll, the first capture and its report.\<close>

lemma started_host:
  obtains h where "host_reach env mute h" "page_of h = display_done (Some (Suc 0)) (resolve Display (startShare init_page))"
    "toolbar_of h = init_toolbar" "arrived h = 1" "flag (app_state (bridge_of h)) ''soundMuted'' = False"
proof -
  let ?s = "host_step env mute"
  let ?h1 = "?s (Poll Frozen) init_host"
  let ?h2 = "?s (PageEvent (DisplayDone (Some (Suc 0)))) ?h1"
  let ?h3 = "?s Arrive ?h2"
  let ?p = "display_done (Some (Suc 0)) (resolve Display (startShare init_page))"
  have i: "page_of init_host = init_page" "toolbar_of init_host = init_toolbar" "bridge_of init_host = initial_bridge"
      "arrived init_host = 0" "pending_action initial_bridge = Some ''start_share''"
      "flag (app_state initial_bridge) ''soundMuted'' = False"
    by (simp_all add: init_host_def initial_bridge_def flag_def state_get_def)
  have a: "answer_text (Some ''start_share'') = ''start_share''" by (simp add: answer_text_def)
  have h1: "page_of ?h1 = startShare init_page" "toolbar_of ?h1 = init_toolbar" "arrived ?h1 = 0"
      "flag (app_state (bridge_of ?h1)) ''soundMuted'' = False"
    by (simp_all add: step_event(2) poll_fields i a handle_def poll_action_def)
  have h2: "page_of ?h2 = ?p" "toolbar_of ?h2 = init_toolbar" "arrived ?h2 = 0"
      "flag (app_state (bridge_of ?h2)) ''soundMuted'' = False"
    by (simp_all add: step_event(1) h1 handle_def)
  have f2: "in_flight ?h2 = [[(''sharing'', True), (''paused'', False), (''micMuted'', False), (''soundMuted'', False)]]"
    by (simp add: in_flight_def h2)
  have h3: "page_of ?h3 = ?p" "toolbar_of ?h3 = init_toolbar" "arrived ?h3 = 1"
      "flag (app_state (bridge_of ?h3)) ''soundMuted'' = False"
    by (simp_all add: step_event(3) [of env mute ?h2] arrive_fields h2 f2 upd_def)
  have "host_reach env mute ?h3"
    by (intro host_reach.step host_reach.init) (simp_all add: host_possible_def is_action_def possible_def h1 f2)
  from this h3 show thesis by (rule that)
qed


end
