(* ===== verification/Host_Files.thy ===== *)
theory Host_Files
  imports Py_Str "HOL-Library.AList"
begin

text \<open>
  The part of the file system that the build and repair functions work on. A path is the list of
  its names from the root, on Windows with the drive as the first; os.path.join with relative
  names is then append and os.path.dirname is butlast. A disk is an association list from paths
  to nodes, the paths the process may change, and the time of the run. Links are followed at
  every component of a path, at most 40 of them, as Linux does. Operations that raise return the
  error with the disk they leave, so what was done before an exception stays done.
\<close>

section \<open>Nodes, paths and links\<close>

type_synonym path = "string list"

datatype node = Directory nat | Regular string nat bool | Link bool path

text \<open>
  The number is the modification time, the flag of a regular file says that it may be executed,
  and that of a link that it is a junction of Windows and not a symbolic link.
\<close>

record disk =
  files :: "(path \<times> node) list"
  may :: "path \<Rightarrow> bool"
  now :: nat

definition node_of :: "disk \<Rightarrow> path \<Rightarrow> node option" where
  "node_of d p = (if p = [] then Some (Directory 0) else map_of (files d) p)"

definition link_of :: "disk \<Rightarrow> path \<Rightarrow> path option" where
  "link_of d p = (case node_of d p of Some (Link _ t) \<Rightarrow> Some t | _ \<Rightarrow> None)"

fun walk_path :: "nat \<Rightarrow> disk \<Rightarrow> path \<Rightarrow> path \<Rightarrow> path option" where
  "walk_path k d acc [] = Some acc"
| "walk_path k d acc (c # rest) =
     (case link_of d (acc @ [c]) of
        None \<Rightarrow> walk_path k d (acc @ [c]) rest
      | Some t \<Rightarrow> (case k of 0 \<Rightarrow> None | Suc k \<Rightarrow> walk_path k d [] (t @ rest)))"

definition realpath :: "disk \<Rightarrow> path \<Rightarrow> path option" where
  "realpath d p = walk_path 40 d [] p"

text \<open>The place of the last name itself, links followed in the names before it only.\<close>

definition lpath :: "disk \<Rightarrow> path \<Rightarrow> path option" where
  "lpath d p = (if p = [] then Some [] else map_option (\<lambda>q. q @ [last p]) (realpath d (butlast p)))"

definition stat :: "disk \<Rightarrow> path \<Rightarrow> node option" where
  "stat d p = Option.bind (realpath d p) (node_of d)"

definition lstat :: "disk \<Rightarrow> path \<Rightarrow> node option" where
  "lstat d p = Option.bind (lpath d p) (node_of d)"

fun is_regular :: "node option \<Rightarrow> bool" where
  "is_regular (Some (Regular _ _ _)) \<longleftrightarrow> True"
| "is_regular _ \<longleftrightarrow> False"

fun is_directory :: "node option \<Rightarrow> bool" where
  "is_directory (Some (Directory _)) \<longleftrightarrow> True"
| "is_directory _ \<longleftrightarrow> False"

fun is_symlink :: "node option \<Rightarrow> bool" where
  "is_symlink (Some (Link j _)) \<longleftrightarrow> \<not> j"
| "is_symlink _ \<longleftrightarrow> False"

fun_cases is_regularE: "is_regular n" and is_directoryE: "is_directory n" and is_symlinkE: "is_symlink n"

definition isfile :: "disk \<Rightarrow> path \<Rightarrow> bool" where "isfile d p \<longleftrightarrow> is_regular (stat d p)"
definition isdir :: "disk \<Rightarrow> path \<Rightarrow> bool" where "isdir d p \<longleftrightarrow> is_directory (stat d p)"
definition exists_path :: "disk \<Rightarrow> path \<Rightarrow> bool" where "exists_path d p \<longleftrightarrow> stat d p \<noteq> None"
definition lexists :: "disk \<Rightarrow> path \<Rightarrow> bool" where "lexists d p \<longleftrightarrow> lstat d p \<noteq> None"
definition islink :: "disk \<Rightarrow> path \<Rightarrow> bool" where "islink d p \<longleftrightarrow> is_symlink (lstat d p)"

definition x_ok :: "disk \<Rightarrow> path \<Rightarrow> bool" where
  "x_ok d p = (case stat d p of Some (Regular _ _ x) \<Rightarrow> x | Some (Directory _) \<Rightarrow> True | _ \<Rightarrow> False)"

definition getmtime :: "disk \<Rightarrow> path \<Rightarrow> py_error + nat" where
  "getmtime d p =
     (case stat d p of
        Some (Regular _ t _) \<Rightarrow> Inr t
      | Some (Directory t) \<Rightarrow> Inr t
      | _ \<Rightarrow> Inl OSError)"

definition children :: "disk \<Rightarrow> path \<Rightarrow> string list" where
  "children d p = map last (filter (\<lambda>q. q \<noteq> [] \<and> butlast q = p) (map fst (files d)))"

definition listdir :: "disk \<Rightarrow> path \<Rightarrow> py_error + string list" where
  "listdir d p =
     (case realpath d p of
        Some q \<Rightarrow> if is_directory (node_of d q) then Inr (children d q) else Inl OSError
      | None \<Rightarrow> Inl OSError)"

definition read_text :: "disk \<Rightarrow> path \<Rightarrow> py_error + string" where
  "read_text d p = (case stat d p of Some (Regular s _ _) \<Rightarrow> Inr s | _ \<Rightarrow> Inl OSError)"

text \<open>The text of a path.\<close>

definition path_str :: "bool \<Rightarrow> path \<Rightarrow> string" where
  "path_str win p = (if win then join (CHR 0x5C) p else ''/'' @ join (CHR ''/'') p)"

section \<open>Steps\<close>

type_synonym io = "disk \<Rightarrow> disk \<times> py_error option"

definition skip :: io where "skip d = (d, None)"
definition raise :: "py_error \<Rightarrow> io" where "raise e d = (d, Some e)"

definition seq :: "io \<Rightarrow> io \<Rightarrow> io" where
  "seq f g d = (case f d of (d', None) \<Rightarrow> g d' | (d', Some e) \<Rightarrow> (d', Some e))"

definition when_io :: "(disk \<Rightarrow> bool) \<Rightarrow> io \<Rightarrow> io" where
  "when_io c f d = (if c d then f d else (d, None))"

text \<open>try f except Exception: pass\<close>

definition try_pass :: "io \<Rightarrow> io" where
  "try_pass f d = (fst (f d), None)"

fun for_io :: "'a list \<Rightarrow> ('a \<Rightarrow> io) \<Rightarrow> io" where
  "for_io [] f d = (d, None)"
| "for_io (x # xs) f d = seq (f x) (for_io xs f) d"

text \<open>A step over the names of a directory, which raises where the directory cannot be listed.\<close>

definition for_dir :: "path \<Rightarrow> (string \<Rightarrow> io) \<Rightarrow> io" where
  "for_dir p f d = (case listdir d p of Inl e \<Rightarrow> (d, Some e) | Inr names \<Rightarrow> for_io names f d)"

definition put :: "path \<Rightarrow> node \<Rightarrow> disk \<Rightarrow> disk" where
  "put q n d = d\<lparr>files := AList.update q n (files d)\<rparr>"

definition del :: "path \<Rightarrow> disk \<Rightarrow> disk" where
  "del q d = d\<lparr>files := AList.delete q (files d)\<rparr>"

text \<open>A new node needs a parent directory, a free place and the right to change it.\<close>

definition free_place :: "disk \<Rightarrow> path \<Rightarrow> bool" where
  "free_place d q \<longleftrightarrow> q \<noteq> [] \<and> node_of d q = None \<and> is_directory (node_of d (butlast q)) \<and> may d q"

definition create :: "path \<Rightarrow> node \<Rightarrow> io" where
  "create p n d =
     (case lpath d p of
        Some q \<Rightarrow> if free_place d q then (put q n d, None) else (d, Some OSError)
      | None \<Rightarrow> (d, Some OSError))"

definition mkdir :: "path \<Rightarrow> io" where
  "mkdir p d = create p (Directory (now d)) d"

text \<open>os.makedirs(p, exist_ok=True)\<close>

definition makedirs :: "path \<Rightarrow> io" where
  "makedirs p =
     seq (for_io (map (\<lambda>i. take i p) [1..<length p]) (\<lambda>q. when_io (\<lambda>d. \<not> exists_path d q) (mkdir q)))
       (\<lambda>d. case mkdir p d of (d', None) \<Rightarrow> (d', None) | (d', Some e) \<Rightarrow> if isdir d p then (d, None) else (d, Some e))"

text \<open>open(p, "w") and one write; what a link names is written to.\<close>

definition write_node :: "path \<Rightarrow> string \<Rightarrow> nat \<Rightarrow> bool \<Rightarrow> io" where
  "write_node p s t x d =
     (case realpath d p of
        None \<Rightarrow> (d, Some OSError)
      | Some q \<Rightarrow>
          (case node_of d q of
             Some (Regular _ _ y) \<Rightarrow> if may d q then (put q (Regular s t (x \<or> y)) d, None) else (d, Some OSError)
           | Some _ \<Rightarrow> (d, Some OSError)
           | None \<Rightarrow> if free_place d q then (put q (Regular s t x) d, None) else (d, Some OSError)))"

definition write_text :: "path \<Rightarrow> string \<Rightarrow> io" where
  "write_text p s d = write_node p s (now d) False d"

text \<open>shutil.copy2: content, time and mode are those of the source.\<close>

definition copy2 :: "path \<Rightarrow> path \<Rightarrow> io" where
  "copy2 s p d =
     (case stat d s of
        Some (Regular c t x) \<Rightarrow> write_node p c t x d
      | _ \<Rightarrow> (d, Some OSError))"

definition chmod_exec :: "path \<Rightarrow> io" where
  "chmod_exec p d =
     (case realpath d p of
        None \<Rightarrow> (d, Some OSError)
      | Some q \<Rightarrow>
          (case node_of d q of
             Some (Regular s t _) \<Rightarrow> if may d q then (put q (Regular s t True) d, None) else (d, Some OSError)
           | _ \<Rightarrow> (d, Some OSError)))"

text \<open>os.unlink and os.remove\<close>

definition unlink :: "path \<Rightarrow> io" where
  "unlink p d =
     (case lpath d p of
        None \<Rightarrow> (d, Some OSError)
      | Some q \<Rightarrow>
          (case node_of d q of
             Some (Regular _ _ _) \<Rightarrow> if may d q then (del q d, None) else (d, Some OSError)
           | Some (Link _ _) \<Rightarrow> if may d q then (del q d, None) else (d, Some OSError)
           | _ \<Rightarrow> (d, Some OSError)))"

text \<open>os.rmdir of Windows, which also removes a link or junction to a directory itself.\<close>

definition rmdir_win :: "path \<Rightarrow> io" where
  "rmdir_win p d =
     (case lpath d p of
        None \<Rightarrow> (d, Some OSError)
      | Some q \<Rightarrow>
          (case node_of d q of
             Some (Directory _) \<Rightarrow>
               if q \<noteq> [] \<and> may d q \<and> children d q = [] then (del q d, None) else (d, Some OSError)
           | Some (Link _ _) \<Rightarrow> if may d q \<and> isdir d p then (del q d, None) else (d, Some OSError)
           | _ \<Rightarrow> (d, Some OSError)))"

text \<open>shutil.rmtree(p, ignore_errors=True): what can be removed with all that is below it goes;
  links below are removed and not followed.\<close>

definition removable :: "disk \<Rightarrow> path \<Rightarrow> bool" where
  "removable d q \<longleftrightarrow> list_all (\<lambda>r. prefix q r \<longrightarrow> may d r) (map fst (files d))"

definition rmtree :: "path \<Rightarrow> io" where
  "rmtree p d =
     (case lpath d p of
        Some q \<Rightarrow> if is_directory (node_of d q) \<and> q \<noteq> []
          then (d\<lparr>files := filter (\<lambda>(r, n). \<not> (prefix q r \<and> removable d r)) (files d)\<rparr>, None) else (d, None)
      | None \<Rightarrow> (d, None))"

text \<open>shutil.copytree(src, dst, symlinks=False, dirs_exist_ok=True), to a depth of k directories;
  a file that cannot be copied is left out and reported at the end.\<close>

definition worst :: "io \<Rightarrow> io \<Rightarrow> io" where
  "worst f g d = (case f d of (d', e) \<Rightarrow> (case g d' of (d'', e') \<Rightarrow> (d'', if e = None then e' else e)))"

fun each_io :: "'a list \<Rightarrow> ('a \<Rightarrow> io) \<Rightarrow> io" where
  "each_io [] f d = (d, None)"
| "each_io (x # xs) f d = worst (f x) (each_io xs f) d"

fun copytree :: "nat \<Rightarrow> path \<Rightarrow> path \<Rightarrow> io" where
  "copytree 0 src dst d = (d, Some OSError)"
| "copytree (Suc k) src dst d =
     (case listdir d src of
        Inl e \<Rightarrow> (d, Some e)
      | Inr names \<Rightarrow>
          seq (makedirs dst)
            (each_io names (\<lambda>name d.
               if isdir d (src @ [name]) then copytree k (src @ [name]) (dst @ [name]) d
               else copy2 (src @ [name]) (dst @ [name]) d)) d)"

section \<open>Links and lookups\<close>

lemma node_of_root [simp]: "node_of d [] = Some (Directory 0)"
  by (simp add: node_of_def)

lemma node_of_put: "q \<noteq> [] \<Longrightarrow> node_of (put q n d) p = (if p = q then Some n else node_of d p)"
  by (simp add: node_of_def put_def update_conv')

lemma node_of_del: "q \<noteq> [] \<Longrightarrow> node_of (del q d) p = (if p = q then None else node_of d p)"
  by (simp add: node_of_def del_def delete_conv')

lemma may_put [simp]: "may (put q n d) = may d" "now (put q n d) = now d"
  by (simp_all add: put_def)

lemma walk_path_cong: "(\<And>p. link_of d p = link_of d' p) \<Longrightarrow> walk_path k d acc p = walk_path k d' acc p"
  by (induction k d acc p rule: walk_path.induct) (auto split: option.splits nat.splits)

lemma realpath_cong: "(\<And>p. link_of d p = link_of d' p) \<Longrightarrow> realpath d p = realpath d' p"
  unfolding realpath_def by (rule walk_path_cong)

lemma lpath_cong: "(\<And>p. link_of d p = link_of d' p) \<Longrightarrow> lpath d p = lpath d' p"
  unfolding lpath_def using realpath_cong [of d d'] by presburger

lemma walk_path_end: "walk_path k d acc p = Some r \<Longrightarrow> link_of d acc = None \<Longrightarrow> link_of d r = None"
proof (induction k d acc p rule: walk_path.induct)
  case (2 k d acc c rest)
  have "link_of d [] = None" by (simp add: link_of_def node_of_def)
  with 2 show ?case by (auto split: option.splits nat.splits)
qed simp

lemma realpath_end: "realpath d p = Some r \<Longrightarrow> link_of d r = None"
  unfolding realpath_def by (erule walk_path_end) (simp add: link_of_def node_of_def)

text \<open>Where a name is appended the walk goes on from what it has reached, with the links left.\<close>

lemma walk_path_append:
  "walk_path k d acc (xs @ ys) = Some z \<Longrightarrow>
    \<exists>k' r. walk_path k d acc xs = Some r \<and> walk_path k' d r ys = Some z"
proof (induction k d acc xs rule: walk_path.induct)
  case (2 k d acc c rest)
  then show ?case
    by (cases "link_of d (acc @ [c])"; cases k) auto
qed auto

lemma walk_path_one:
  assumes "walk_path k d r [c] = Some z" "node_of d z \<noteq> None"
  shows "node_of d (r @ [c]) \<noteq> None"
proof (cases "link_of d (r @ [c])")
  case None
  with assms show ?thesis by simp
qed (auto simp: link_of_def split: option.splits)

lemma child_of_stat:
  assumes "stat d (p @ [c]) \<noteq> None"
  shows "\<exists>r. realpath d p = Some r \<and> node_of d (r @ [c]) \<noteq> None"
proof -
  obtain z where z: "walk_path 40 d [] (p @ [c]) = Some z" "node_of d z \<noteq> None"
    using assms by (auto simp: stat_def realpath_def split: bind_splits)
  from walk_path_append [OF z(1)] walk_path_one z(2) show ?thesis
    unfolding realpath_def by metis
qed

lemma mem_children: "c \<in> set (children d p) \<longleftrightarrow> node_of d (p @ [c]) \<noteq> None"
proof -
  have "c \<in> set (children d p) \<longleftrightarrow> p @ [c] \<in> fst ` set (files d)"
  proof
    assume "c \<in> set (children d p)"
    then obtain q where "q \<in> fst ` set (files d)" "q \<noteq> []" "butlast q = p" "last q = c"
      by (auto simp: children_def)
    then show "p @ [c] \<in> fst ` set (files d)" using append_butlast_last_id [of q] by simp
  next
    assume "p @ [c] \<in> fst ` set (files d)"
    then show "c \<in> set (children d p)"
      unfolding children_def by (force intro!: image_eqI [where x = "p @ [c]"])
  qed
  then show ?thesis by (simp add: node_of_def map_of_eq_None_iff)
qed

lemma walk_path_clear:
  "(\<And>zs. prefix zs ys \<Longrightarrow> link_of d (acc @ zs) = None) \<Longrightarrow> walk_path k d acc ys = Some (acc @ ys)"
proof (induction ys arbitrary: acc)
  case (Cons y ys)
  from Cons.prems [of "[y]"] have "link_of d (acc @ [y]) = None" by simp
  moreover have "link_of d ((acc @ [y]) @ zs) = None" if "prefix zs ys" for zs
    using Cons.prems [of "y # zs"] that by simp
  ultimately show ?case using Cons.IH [of "acc @ [y]"] by simp
qed simp

lemma walk_path_extend:
  assumes "walk_path k d acc xs = Some r" "\<And>zs. prefix zs ys \<Longrightarrow> link_of d (r @ zs) = None"
  shows "walk_path k d acc (xs @ ys) = Some (r @ ys)"
  using assms
proof (induction k d acc xs rule: walk_path.induct)
  case (1 k d acc)
  then have "walk_path k d acc ys = Some (acc @ ys)" by (intro walk_path_clear) simp
  with 1 show ?case by simp
next
  case (2 k d acc c rest)
  then show ?case by (cases "link_of d (acc @ [c])"; cases k) auto
qed

lemma realpath_extend:
  "realpath d p = Some r \<Longrightarrow> (\<And>zs. prefix zs ys \<Longrightarrow> link_of d (r @ zs) = None) \<Longrightarrow> realpath d (p @ ys) = Some (r @ ys)"
  unfolding realpath_def by (rule walk_path_extend)

lemma realpath_of_lpath:
  assumes "lpath d p = Some q" "link_of d q = None"
  shows "realpath d p = Some q"
proof (cases "p = []")
  case False
  then obtain r where r: "realpath d (butlast p) = Some r" "q = r @ [last p]"
    using assms(1) by (auto simp: lpath_def)
  have "link_of d r = None"
    using r(1) by (rule realpath_end)
  then have "realpath d (butlast p @ [last p]) = Some (r @ [last p])"
    using r assms(2) by (intro realpath_extend) (auto simp: prefix_Cons)
  with False r(2) show ?thesis by simp
qed (use assms in \<open>simp add: lpath_def realpath_def\<close>)

lemma lexists_of_stat: "stat d p \<noteq> None \<Longrightarrow> lexists d p"
proof (cases "p = []")
  case False
  assume "stat d p \<noteq> None"
  with False have "stat d (butlast p @ [last p]) \<noteq> None" by simp
  from child_of_stat [OF this] False show ?thesis by (auto simp: lexists_def lstat_def lpath_def)
qed (simp add: lexists_def lstat_def lpath_def node_of_def)

lemma isdir_listdir:
  assumes "isdir d p"
  obtains r where "realpath d p = Some r" "listdir d p = Inr (children d r)"
  using assms by (cases "realpath d p") (auto simp: isdir_def stat_def listdir_def)

text \<open>Without links every path is its own place.\<close>

lemma walk_path_plain: "(\<And>p. link_of d p = None) \<Longrightarrow> walk_path k d acc p = Some (acc @ p)"
  by (induction p arbitrary: acc) simp_all

lemma realpath_plain: "(\<And>p. link_of d p = None) \<Longrightarrow> realpath d p = Some p"
  by (simp add: realpath_def walk_path_plain)

section \<open>Steps that only add\<close>

fun plain_node :: "node \<Rightarrow> bool" where
  "plain_node (Link _ _) \<longleftrightarrow> False"
| "plain_node _ \<longleftrightarrow> True"

lemma link_of_put_free:
  assumes "free_place d q" "plain_node n"
  shows "link_of (put q n d) p = link_of d p"
  using assms by (cases n) (auto simp: free_place_def link_of_def node_of_put)

lemma link_of_put_regular:
  assumes "node_of d q = Some (Regular s t x)"
  shows "link_of (put q (Regular s' t' x') d) p = link_of d p"
proof -
  have "q \<noteq> []" using assms by (auto simp: node_of_def)
  with assms show ?thesis by (auto simp: link_of_def node_of_put)
qed

lemma stat_put_free:
  assumes "free_place d q" "plain_node n"
  shows "stat (put q n d) p = (if realpath d p = Some q then Some n else stat d p)"
proof -
  have "q \<noteq> []" using assms(1) by (simp add: free_place_def)
  with realpath_cong [OF link_of_put_free [OF assms]] show ?thesis
    by (auto simp: stat_def node_of_put split: bind_splits)
qed

lemma stat_put_regular:
  assumes "node_of d q = Some (Regular s t x)"
  shows "stat (put q (Regular s' t' x') d) p =
    (if realpath d p = Some q then Some (Regular s' t' x') else stat d p)"
proof -
  have "q \<noteq> []" using assms by (auto simp: node_of_def)
  with realpath_cong [OF link_of_put_regular [OF assms]] show ?thesis
    by (auto simp: stat_def node_of_put split: bind_splits)
qed

text \<open>
  The contract between the primitive changes of a disk and the functions built from them: a
  property of disks that survives a new node at a free place, and the rewriting of a file.
\<close>

definition keeps :: "(disk \<Rightarrow> bool) \<Rightarrow> io \<Rightarrow> bool" where
  "keeps P f \<longleftrightarrow> (\<forall>d. P d \<longrightarrow> P (fst (f d)))"

named_theorems keeps_intro "steps that keep a property of disks"

lemma keepsI: "(\<And>d. P d \<Longrightarrow> P (fst (f d))) \<Longrightarrow> keeps P f"
  by (simp add: keeps_def)

lemma keepsD: "keeps P f \<Longrightarrow> P d \<Longrightarrow> P (fst (f d))"
  by (simp add: keeps_def)

lemma keeps_result: "keeps P f \<Longrightarrow> P d \<Longrightarrow> f d = (d', e) \<Longrightarrow> P d'"
  using keepsD [of P f d] by simp

lemma keeps_seq [keeps_intro]: "keeps P f \<Longrightarrow> keeps P g \<Longrightarrow> keeps P (seq f g)"
  by (rule keepsI) (auto simp: seq_def split: prod.split option.split dest: keepsD keeps_result)

lemma keeps_skip [keeps_intro]: "keeps P skip" "keeps P (raise e)"
  by (simp_all add: keeps_def skip_def raise_def)

lemma keeps_when [keeps_intro]: "keeps P f \<Longrightarrow> keeps P (when_io c f)"
  by (auto simp: keeps_def when_io_def)

lemma keeps_try [keeps_intro]: "keeps P f \<Longrightarrow> keeps P (try_pass f)"
  by (simp add: keeps_def try_pass_def)

lemma keeps_for [keeps_intro]: "(\<And>x. x \<in> set xs \<Longrightarrow> keeps P (f x)) \<Longrightarrow> keeps P (for_io xs f)"
proof (induction xs)
  case (Cons x xs)
  then have "keeps P (seq (f x) (for_io xs f))" by (intro keeps_seq) simp_all
  then show ?case by (simp add: keeps_def)
qed (simp add: keeps_def)

lemma keeps_for_dir [keeps_intro]: "(\<And>x. keeps P (f x)) \<Longrightarrow> keeps P (for_dir p f)"
  using keeps_for [of _ P f] by (auto simp: keeps_def for_dir_def split: sum.split)

lemma keeps_worst [keeps_intro]: "keeps P f \<Longrightarrow> keeps P g \<Longrightarrow> keeps P (worst f g)"
  by (rule keepsI) (auto simp: worst_def split: prod.split dest: keepsD keeps_result)

lemma keeps_each [keeps_intro]: "(\<And>x. x \<in> set xs \<Longrightarrow> keeps P (f x)) \<Longrightarrow> keeps P (each_io xs f)"
proof (induction xs)
  case (Cons x xs)
  then have "keeps P (worst (f x) (each_io xs f))" by (intro keeps_worst) simp_all
  then show ?case by (simp add: keeps_def)
qed (simp add: keeps_def)

locale growth =
  fixes P :: "disk \<Rightarrow> bool"
  assumes grow: "P d \<Longrightarrow> free_place d q \<Longrightarrow> plain_node n \<Longrightarrow> P (put q n d)"
begin

lemma create: "plain_node n \<Longrightarrow> keeps P (create p n)"
  by (auto simp: keeps_def create_def grow split: option.split)

lemma mkdir: "keeps P (mkdir p)"
  using create by (auto simp: keeps_def mkdir_def)

lemma makedirs: "keeps P (makedirs p)"
  unfolding makedirs_def
  by (intro keeps_intro mkdir keepsI)
     (auto split: prod.split option.split dest: keeps_result [OF mkdir])

end

locale growth_and_writes = growth +
  assumes rewrite: "P d \<Longrightarrow> node_of d q = Some (Regular s t x) \<Longrightarrow> P (put q (Regular s' t' x') d)"
begin

lemma write_node: "keeps P (write_node p s t x)"
  by (rule keepsI) (auto simp: write_node_def rewrite grow split: option.split node.split)

lemma write_text: "keeps P (write_text p s)"
  using write_node by (auto simp: keeps_def write_text_def)

lemma copy2: "keeps P (copy2 s p)"
  using write_node by (auto simp: keeps_def copy2_def split: option.split node.split)

lemma chmod_exec: "keeps P (chmod_exec p)"
  by (rule keepsI) (auto simp: chmod_exec_def rewrite split: option.split node.split)

lemma copytree: "keeps P (copytree k src dst)"
proof (induction k arbitrary: src dst)
  case (Suc k)
  have "keeps P (\<lambda>d. if isdir d (src @ [name]) then copytree k (src @ [name]) (dst @ [name]) d
      else copy2 (src @ [name]) (dst @ [name]) d)" for name
    using Suc copy2 by (simp add: keeps_def)
  then have "keeps P (seq (makedirs dst) (each_io names (\<lambda>name d.
      if isdir d (src @ [name]) then copytree k (src @ [name]) (dst @ [name]) d
      else copy2 (src @ [name]) (dst @ [name]) d)))" for names
    by (intro keeps_intro makedirs)
  then show ?case by (auto simp: keeps_def split: sum.split)
qed (simp add: keeps_def)

end

section \<open>Well-formed disks and disks that keep what another one holds\<close>

definition wf_disk :: "disk \<Rightarrow> bool" where
  "wf_disk d \<longleftrightarrow> distinct (map fst (files d)) \<and>
     (\<forall>q \<in> set (map fst (files d)). q \<noteq> [] \<and> is_directory (node_of d (butlast q)))"

definition extends :: "disk \<Rightarrow> disk \<Rightarrow> bool" where
  "extends d0 d \<longleftrightarrow> (\<forall>q n. node_of d0 q = Some n \<longrightarrow> node_of d q = Some n)"

lemma extends_refl [simp]: "extends d d"
  by (simp add: extends_def)

lemma extends_trans: "extends d d' \<Longrightarrow> extends d' d'' \<Longrightarrow> extends d d''"
  by (simp add: extends_def)

lemma node_of_mem: "q \<noteq> [] \<Longrightarrow> node_of d q \<noteq> None \<longleftrightarrow> q \<in> set (map fst (files d))"
  by (auto simp: node_of_def map_of_eq_None_iff)

lemma wf_parent: "wf_disk d \<Longrightarrow> node_of d q \<noteq> None \<Longrightarrow> is_directory (node_of d (butlast q))"
  by (cases "q = []") (auto simp: wf_disk_def node_of_def map_of_eq_None_iff)

lemma wf_ancestor:
  "wf_disk d \<Longrightarrow> node_of d (p @ ns) \<noteq> None \<Longrightarrow> ns \<noteq> [] \<Longrightarrow> is_directory (node_of d p)"
proof (induction ns rule: rev_induct)
  case (snoc n ns)
  then have par: "is_directory (node_of d (p @ ns))"
    using wf_parent [of d "p @ ns @ [n]"] by (simp add: butlast_append)
  show ?case
  proof (cases "ns = []")
    case False
    have "node_of d (p @ ns) \<noteq> None" using par by (cases "node_of d (p @ ns)") auto
    with snoc False show ?thesis by blast
  qed (use par in simp)
qed simp

lemma files_put: "set (map fst (files (put q n d))) = insert q (set (map fst (files d)))"
  by (simp add: put_def dom_update)

lemma distinct_put: "distinct (map fst (files d)) \<Longrightarrow> distinct (map fst (files (put q n d)))"
  by (simp add: put_def distinct_update)

lemma wf_put_free:
  assumes "wf_disk d" "free_place d q"
  shows "wf_disk (put q n d)"
proof -
  have q: "q \<noteq> []" "node_of d q = None" "is_directory (node_of d (butlast q))"
    using assms(2) by (auto simp: free_place_def)
  have "is_directory (node_of (put q n d) (butlast r))" if "r \<in> insert q (set (map fst (files d)))" for r
  proof -
    have "is_directory (node_of d (butlast r))" using that q assms(1) by (auto simp: wf_disk_def)
    with q(1,2) show ?thesis by (auto simp: node_of_put)
  qed
  with assms(1) q(1) show ?thesis
    unfolding wf_disk_def files_put by (auto intro: distinct_put simp: wf_disk_def)
qed

lemma wf_put_regular:
  assumes "wf_disk d" "node_of d q = Some (Regular s t x)"
  shows "wf_disk (put q (Regular s' t' x') d)"
proof -
  have q: "q \<noteq> []" using assms(2) by (auto simp: node_of_def)
  with assms(2) have m: "q \<in> set (map fst (files d))" using node_of_mem [of q d] by simp
  have "is_directory (node_of (put q (Regular s' t' x') d) (butlast r))" if "r \<in> set (map fst (files d))" for r
    using that assms q by (auto simp: wf_disk_def node_of_put)
  moreover have "r \<noteq> []" if "r \<in> set (map fst (files d))" for r using that assms(1) by (auto simp: wf_disk_def)
  ultimately show ?thesis
    using assms(1) m unfolding wf_disk_def [of "put q (Regular s' t' x') d"] files_put insert_absorb [OF m]
    by (auto intro: distinct_put simp: wf_disk_def)
qed

interpretation wf: growth_and_writes wf_disk
  by unfold_locales (rule wf_put_free wf_put_regular; assumption)+

interpretation ext: growth "extends d0" for d0
proof
  fix d q n assume a: "extends d0 d" "free_place d q"
  then have "q \<noteq> []" "node_of d0 q = None"
    by (auto simp: extends_def free_place_def) (metis option.exhaust option.simps(3))
  with a show "extends d0 (put q n d)" by (auto simp: extends_def node_of_put)
qed

end
