(* ===== verification/Ui_Repair.thy ===== *)
theory Ui_Repair
  imports Host_Files
begin

text \<open>
  ui_repair.py: removing a target, linking or copying a package, the packages Deno leaves out on
  Windows, the search for Vite and the repair of its start scripts. The argument win says that
  the platform is Windows, junctions that the volume can hold them.
\<close>

section \<open>Removing and linking\<close>

definition safely_remove_target :: "bool \<Rightarrow> path \<Rightarrow> io" where
  "safely_remove_target win dst = try_pass (\<lambda>d.
     (let rest = (\<lambda>d. if islink d dst then unlink dst d
            else if isfile d dst then unlink dst d
            else if isdir d dst then rmtree dst d else (d, None))
      in if win \<and> isdir d dst then
           (case rmdir_win dst d of
              (d, None) \<Rightarrow> (d, None)
            | (d, Some e) \<Rightarrow>
                (let d = fst (rmdir_win dst d)
                 in if \<not> lexists d dst then (d, None) else rest d))
         else rest d))"

definition make_junction :: "bool \<Rightarrow> path \<Rightarrow> path \<Rightarrow> io" where
  "make_junction junctions src dst d =
     (if junctions then create dst (Link True src) d else (d, Some OSError))"

definition copy_depth :: nat where
  "copy_depth = 4096"

definition link_or_copy_dir :: "bool \<Rightarrow> bool \<Rightarrow> path \<Rightarrow> path \<Rightarrow> io" where
  "link_or_copy_dir win junctions src dst d =
     (if \<not> isdir d src \<or> exists_path d dst then (d, None)
      else seq (when_io (\<lambda>_. butlast dst \<noteq> []) (makedirs (butlast dst)))
        (\<lambda>d. let d = (if win then fst (make_junction junctions src dst d) else d)
           in if win \<and> isdir d dst then (d, None)
           else let d = (if win then fst (make_junction junctions src dst d) else d)
           in if win \<and> isdir d dst then (d, None)
           else try_pass (copytree copy_depth src dst) d) d)"

section \<open>The packages Deno leaves out\<close>

definition link_missing :: "bool \<Rightarrow> path \<Rightarrow> path \<Rightarrow> io" where
  "link_missing junctions src dst =
     when_io (\<lambda>d. isdir d src \<and> \<not> exists_path d dst) (link_or_copy_dir True junctions src dst)"

definition fix_package :: "bool \<Rightarrow> path \<Rightarrow> path \<Rightarrow> string \<Rightarrow> io" where
  "fix_package junctions nm_dir inner_nm pkg =
     (let pkg_path = inner_nm @ [pkg]
      in if startswith pkg ''@''
         then for_dir pkg_path (\<lambda>subpkg. link_missing junctions (pkg_path @ [subpkg]) (nm_dir @ [pkg, subpkg]))
         else link_missing junctions pkg_path (nm_dir @ [pkg]))"

definition fix_deno_windows_node_modules :: "bool \<Rightarrow> bool \<Rightarrow> path \<Rightarrow> io" where
  "fix_deno_windows_node_modules win junctions ui_dir =
     (let nm_dir = ui_dir @ [''node_modules''];
          deno_store = nm_dir @ [''.deno'']
      in when_io (\<lambda>d. win \<and> isdir d deno_store)
        (try_pass (for_dir deno_store (\<lambda>entry.
           let inner_nm = deno_store @ [entry, ''node_modules'']
           in when_io (\<lambda>d. isdir d inner_nm) (for_dir inner_nm (fix_package junctions nm_dir inner_nm))))))"

section \<open>Vite\<close>

definition vite_entry :: "string \<Rightarrow> bool" where
  "vite_entry entry \<longleftrightarrow> contains ''vite@'' entry \<or> entry = ''vite''"

definition store_paths :: "disk \<Rightarrow> path \<Rightarrow> (path \<Rightarrow> path list) \<Rightarrow> py_error + path list" where
  "store_paths d nm_dir paths =
     (let deno_store = nm_dir @ [''.deno'']
      in if isdir d deno_store
         then (case listdir d deno_store of
             Inl e \<Rightarrow> Inl e
           | Inr names \<Rightarrow> Inr (concat (map (\<lambda>entry. paths (deno_store @ [entry, ''node_modules''])) (filter vite_entry names))))
         else Inr [])"

definition cli_paths :: "path \<Rightarrow> path list" where
  "cli_paths nm_dir = [nm_dir @ [''vite'', ''bin'', ''vite.js''], nm_dir @ [''vite'', ''dist'', ''node'', ''cli.js'']]"

definition find_vite_cli :: "path \<Rightarrow> disk \<Rightarrow> py_error + path option" where
  "find_vite_cli ui_dir d =
     (let nm_dir = ui_dir @ [''node_modules'']
      in if \<not> isdir d nm_dir then Inr None
         else case store_paths d nm_dir cli_paths of
             Inl e \<Rightarrow> Inl e
           | Inr stored \<Rightarrow> Inr (find (isfile d) (cli_paths nm_dir @ stored)))"

definition shim_paths :: "path \<Rightarrow> path list" where
  "shim_paths nm_dir = [nm_dir @ [''.bin'', ''vite''], nm_dir @ [''.bin'', ''vite.cmd''], nm_dir @ [''vite'', ''bin'', ''vite.js'']]"

definition store_shim_paths :: "path \<Rightarrow> path list" where
  "store_shim_paths nm_dir = [nm_dir @ [''vite'', ''bin'', ''vite.js''], nm_dir @ [''.bin'', ''vite'']]"

definition is_shim :: "string \<Rightarrow> bool" where
  "is_shim text \<longleftrightarrow> (let header = take 200 text in contains ''basedir=$(dirname'' header \<or> contains ''#!/bin/sh'' header)"

text \<open>os.path.relpath, on the names of both paths, and the module name made from it.\<close>

fun common_len :: "path \<Rightarrow> path \<Rightarrow> nat" where
  "common_len (x # xs) (y # ys) = (if x = y then Suc (common_len xs ys) else 0)"
| "common_len _ _ = 0"

definition relpath :: "path \<Rightarrow> path \<Rightarrow> path" where
  "relpath p start =
     (let i = common_len start p; rel = replicate (length start - i) ''..'' @ drop i p
      in if rel = [] then [''.''] else rel)"

definition import_line :: "path \<Rightarrow> path \<Rightarrow> string" where
  "import_line cli_js fpath =
     (let rel_path = join (CHR ''/'') (relpath cli_js (butlast fpath));
          rel_path = (if startswith rel_path ''.'' then rel_path else ''./'' @ rel_path)
      in ''import '' @ [CHR 0x27] @ rel_path @ [CHR 0x27] @ '';'' @ [CHR 0x0A])"

definition repair_shim :: "path \<Rightarrow> path \<Rightarrow> io" where
  "repair_shim cli_js fpath =
     when_io (\<lambda>d. isfile d fpath \<and> \<not> islink d fpath)
       (try_pass (\<lambda>d. case read_text d fpath of
            Inl e \<Rightarrow> (d, Some e)
          | Inr text \<Rightarrow> if is_shim text then write_text fpath (import_line cli_js fpath) d else (d, None)))"

definition fix_broken_vite_shims :: "path \<Rightarrow> io" where
  "fix_broken_vite_shims ui_dir d =
     (let nm_dir = ui_dir @ [''node_modules'']
      in if \<not> isdir d nm_dir then (d, None)
         else case find_vite_cli ui_dir d of
             Inl e \<Rightarrow> (d, Some e)
           | Inr None \<Rightarrow> (d, None)
           | Inr (Some cli_js) \<Rightarrow>
               (case store_paths d nm_dir store_shim_paths of
                  Inl e \<Rightarrow> (d, Some e)
                | Inr stored \<Rightarrow> for_io (shim_paths nm_dir @ stored) (repair_shim cli_js) d))"

section \<open>Removing\<close>

lemma lookup_filter: "map_of (filter (\<lambda>(r, n). P r) xs) r = (if P r then map_of xs r else None)"
  by (induction xs) auto

text \<open>What one removal leaves: everything that is not at or below the place, and the rest of it
  only if it may not be removed.\<close>

definition only_below :: "path \<Rightarrow> disk \<Rightarrow> disk \<Rightarrow> bool" where
  "only_below q d d' \<longleftrightarrow> (\<forall>r. \<not> prefix q r \<longrightarrow> node_of d' r = node_of d r)"

lemma only_below_refl [simp]: "only_below q d d"
  by (simp add: only_below_def)

lemma only_below_del: "q \<noteq> [] \<Longrightarrow> only_below q d (del q d)"
  by (auto simp: only_below_def node_of_del)

lemma unlink_only_below: "lpath d p = Some q \<Longrightarrow> only_below q d (fst (unlink p d))"
  by (cases "q = []") (auto simp: unlink_def node_of_def only_below_del split: option.split node.split)

lemma rmdir_only_below: "lpath d p = Some q \<Longrightarrow> only_below q d (fst (rmdir_win p d))"
  by (cases "q = []") (auto simp: rmdir_win_def node_of_def only_below_del split: option.split node.split)

lemma node_of_rmtree:
  assumes "lpath d p = Some q" "is_directory (node_of d q)" "q \<noteq> []"
  shows "node_of (fst (rmtree p d)) r = (if prefix q r \<and> removable d r then None else node_of d r)"
proof -
  have "fst (rmtree p d) = d\<lparr>files := filter (\<lambda>(r, n). \<not> (prefix q r \<and> removable d r)) (files d)\<rparr>"
    using assms by (simp add: rmtree_def)
  then show ?thesis
    using assms(3) lookup_filter [of "\<lambda>r. \<not> (prefix q r \<and> removable d r)" "files d" r]
    by (cases "r = []") (simp_all add: node_of_def)
qed

lemma rmtree_only_below: "lpath d p = Some q \<Longrightarrow> only_below q d (fst (rmtree p d))"
  using node_of_rmtree [of d p q]
  by (cases "is_directory (node_of d q) \<and> q \<noteq> []") (auto simp: only_below_def rmtree_def)

definition remove_rest :: "path \<Rightarrow> io" where
  "remove_rest dst d =
     (if islink d dst then unlink dst d
      else if isfile d dst then unlink dst d
      else if isdir d dst then rmtree dst d else (d, None))"

lemma remove_rest_only_below: "lpath d p = Some q \<Longrightarrow> only_below q d (fst (remove_rest p d))"
  by (simp add: remove_rest_def unlink_only_below rmtree_only_below)

lemma rmdir_fails: "rmdir_win p d = (d', Some e) \<Longrightarrow> d' = d"
  by (auto simp: rmdir_win_def split: option.splits node.splits if_splits)

text \<open>The second attempt to remove a directory on Windows finds the disk the first one found.\<close>

lemma safely_remove_target_cases:
  "safely_remove_target win dst d =
    (if win \<and> isdir d dst \<and> snd (rmdir_win dst d) = None then (fst (rmdir_win dst d), None)
     else if win \<and> isdir d dst \<and> \<not> lexists d dst then (d, None)
     else (fst (remove_rest dst d), None))"
proof (cases "win \<and> isdir d dst")
  case True
  show ?thesis
  proof (cases "rmdir_win dst d")
    case (Pair d' e)
    with True rmdir_fails [of dst d d'] show ?thesis
      by (cases e) (auto simp: safely_remove_target_def try_pass_def Let_def remove_rest_def)
  qed
qed (auto simp: safely_remove_target_def try_pass_def Let_def remove_rest_def)

lemma rmdir_done:
  assumes "lpath d p = Some q" "rmdir_win p d = (d', None)"
  shows "node_of d' q = None"
  using assms by (cases "q = []") (auto simp: rmdir_win_def node_of_del split: option.splits node.splits if_splits)

lemma unlink_done:
  assumes "lpath d p = Some q" "may d q" "\<not> is_directory (node_of d q)"
  shows "node_of (fst (unlink p d)) q = None"
  using assms by (cases "q = []") (auto simp: unlink_def node_of_del split: option.splits node.splits)

lemma remove_rest_done:
  assumes "lpath d p = Some q" "removable d q" "q \<noteq> []" "\<And>t. node_of d q \<noteq> Some (Link True t)"
  shows "node_of (fst (remove_rest p d)) q = None"
proof (cases "node_of d q")
  case None
  then have "stat d p = None"
    using realpath_of_lpath [OF assms(1)] by (simp add: link_of_def stat_def)
  with None assms(1) show ?thesis
    by (simp add: remove_rest_def islink_def lstat_def isfile_def isdir_def)
next
  case (Some n)
  have m: "may d q"
    using assms(2,3) Some node_of_mem [of q d] by (auto simp: removable_def list_all_iff)
  show ?thesis
  proof (cases n)
    case (Link j t)
    with Some assms(1,4) have "islink d p" by (auto simp: islink_def lstat_def)
    with Some Link m assms(1) show ?thesis by (simp add: remove_rest_def unlink_done)
  next
    case (Directory t)
    with Some have "stat d p = Some n"
      using realpath_of_lpath [OF assms(1)] by (simp add: link_of_def stat_def)
    with Some Directory assms show ?thesis
      by (simp add: remove_rest_def islink_def lstat_def isfile_def isdir_def node_of_rmtree)
  next
    case (Regular s t x)
    with Some have "stat d p = Some n"
      using realpath_of_lpath [OF assms(1)] by (simp add: link_of_def stat_def)
    with Some Regular assms(1) m show ?thesis
      by (simp add: remove_rest_def islink_def lstat_def isfile_def unlink_done)
  qed
qed


section \<open>Module names\<close>

text \<open>What a module name means in a directory.\<close>

fun resolve :: "path \<Rightarrow> path \<Rightarrow> path" where
  "resolve base [] = base"
| "resolve base (c # cs) =
     resolve (if c = ''..'' then butlast base else if c = ''.'' then base else base @ [c]) cs"

lemma resolve_append: "resolve base (xs @ ys) = resolve (resolve base xs) ys"
  by (induction xs arbitrary: base) simp_all

lemma resolve_up: "resolve (base @ xs) (replicate (length xs) ''..'') = base"
proof (induction xs rule: rev_induct)
  case (snoc x xs)
  then show ?case by (simp add: butlast_append flip: append_assoc)
qed simp

lemma resolve_down: "''..'' \<notin> set xs \<Longrightarrow> ''.'' \<notin> set xs \<Longrightarrow> resolve base xs = base @ xs"
  by (induction xs arbitrary: base) auto

lemma common_len_le: "common_len s p \<le> length s \<and> take (common_len s p) s = take (common_len s p) p"
  by (induction s p rule: common_len.induct) auto

lemma common_len_self: "common_len xs (xs @ ys) = length xs"
  by (induction xs) simp_all

lemma resolve_relpath:
  assumes "''..'' \<notin> set p" "''.'' \<notin> set p"
  shows "resolve start (relpath p start) = p"
proof -
  let ?i = "common_len start p"
  have "resolve start (replicate (length start - ?i) ''..'') = take ?i start"
    using resolve_up [of "take ?i start" "drop ?i start"] by simp
  moreover have "''..'' \<notin> set (drop ?i p)" "''.'' \<notin> set (drop ?i p)"
    using assms by (auto dest: in_set_dropD)
  ultimately have "resolve start (replicate (length start - ?i) ''..'' @ drop ?i p) = take ?i start @ drop ?i p"
    by (simp add: resolve_append resolve_down)
  also have "\<dots> = p" using common_len_le [of start p] by simp
  finally show ?thesis by (auto simp: relpath_def Let_def)
qed

section \<open>The repair of the start scripts\<close>

definition no_links :: "disk \<Rightarrow> bool" where
  "no_links d \<longleftrightarrow> (\<forall>p. link_of d p = None)"

lemma stat_no_links: "no_links d \<Longrightarrow> stat d p = node_of d p"
  by (simp add: no_links_def stat_def realpath_plain)

lemma islink_no_links:
  assumes "no_links d"
  shows "\<not> islink d p"
proof -
  have "lpath d p = Some p" using assms by (simp add: lpath_def no_links_def realpath_plain)
  then have "lstat d p = node_of d p" by (simp add: lstat_def)
  moreover have "link_of d p = None" using assms by (simp add: no_links_def)
  ultimately show ?thesis
    by (auto simp: islink_def link_of_def split: option.splits node.splits elim!: is_symlinkE)
qed

lemma repair_shim_step:
  assumes "no_links d"
  shows "repair_shim cli f d =
    (case node_of d f of
       Some (Regular s t x) \<Rightarrow>
         if is_shim s \<and> may d f then (put f (Regular (import_line cli f) (now d) x) d, None) else (d, None)
     | _ \<Rightarrow> (d, None))"
proof -
  have r: "realpath d f = Some f" using assms by (simp add: no_links_def realpath_plain)
  have l: "node_of d f \<noteq> Some (Link j t)" for j t
    using assms by (auto simp: no_links_def link_of_def dest: spec [of _ f])
  note simps = repair_shim_def when_io_def try_pass_def isfile_def read_text_def stat_no_links [OF assms]
    write_text_def write_node_def islink_no_links [OF assms] r
  show ?thesis
  proof (cases "node_of d f")
    case (Some n)
    with l show ?thesis by (cases n) (simp_all add: simps)
  qed (simp add: simps)
qed

lemma repair_shim_result:
  assumes "no_links d"
  shows "snd (repair_shim cli f d) = None"
    and "no_links (fst (repair_shim cli f d))"
    and "may (fst (repair_shim cli f d)) = may d"
    and "read_text (fst (repair_shim cli f d)) p =
      (if p = f then map_sum id (\<lambda>s. if is_shim s \<and> may d f then import_line cli f else s) (read_text d p)
       else read_text d p)"
proof -
  note step = repair_shim_step [OF assms, of cli f]
  show "snd (repair_shim cli f d) = None" "may (fst (repair_shim cli f d)) = may d"
    unfolding step by (auto split: option.split node.split)
  show n: "no_links (fst (repair_shim cli f d))"
    using assms unfolding step no_links_def
    by (auto simp: link_of_put_regular split: option.split node.split)
  show "read_text (fst (repair_shim cli f d)) p =
      (if p = f then map_sum id (\<lambda>s. if is_shim s \<and> may d f then import_line cli f else s) (read_text d p)
       else read_text d p)" (is "read_text ?d p = ?r")
  proof (cases "\<exists>s t x. node_of d f = Some (Regular s t x) \<and> is_shim s \<and> may d f")
    case True
    then obtain s t x where f: "node_of d f = Some (Regular s t x)" "is_shim s" "may d f" by blast
    then have "f \<noteq> []" by auto
    with f have "node_of ?d p = (if p = f then Some (Regular (import_line cli f) (now d) x) else node_of d p)"
      by (simp add: step node_of_put)
    with f show ?thesis by (simp add: read_text_def stat_no_links [OF n] stat_no_links [OF assms])
  next
    case False
    then have "?d = d" by (auto simp: step split: option.split node.split)
    moreover have "\<not> (is_shim s \<and> may d f)" if "read_text d f = Inr s" for s
      using that False by (auto simp: read_text_def stat_no_links [OF assms] split: option.splits node.splits)
    ultimately show ?thesis by (cases "read_text d p") auto
  qed
qed

lemma repair_shims_result:
  "no_links d \<Longrightarrow> snd (for_io fs (repair_shim cli) d) = None \<and>
    read_text (fst (for_io fs (repair_shim cli) d)) p =
      map_sum id (\<lambda>s. if p \<in> set fs \<and> is_shim s \<and> may d p then import_line cli p else s) (read_text d p)"
proof (induction fs arbitrary: d)
  case Nil
  then show ?case by (cases "read_text d p") simp_all
next
  case (Cons f fs)
  note r = repair_shim_result [OF Cons.prems, of cli f]
  have "for_io (f # fs) (repair_shim cli) d = for_io fs (repair_shim cli) (fst (repair_shim cli f d))"
    using r(1) by (auto simp: seq_def split: prod.split option.split)
  with Cons.IH [OF r(2)] r(3,4) show ?case
    by (cases "read_text d p") auto
qed

lemma store_paths_total: "\<exists>ps. store_paths d nm paths = Inr ps"
proof (cases "isdir d (nm @ [''.deno''])")
  case True
  then obtain r where "listdir d (nm @ [''.deno'']) = Inr (children d r)" by (rule isdir_listdir)
  with True show ?thesis by (simp add: store_paths_def Let_def)
qed (simp add: store_paths_def)

lemma fix_broken_vite_shims_run:
  assumes "find_vite_cli ui_dir d = Inr (Some cli)" "store_paths d (ui_dir @ [''node_modules'']) store_shim_paths = Inr stored"
  shows "fix_broken_vite_shims ui_dir d =
    for_io (shim_paths (ui_dir @ [''node_modules'']) @ stored) (repair_shim cli) d"
  using assms by (auto simp: fix_broken_vite_shims_def Let_def find_vite_cli_def split: if_splits)

definition vite_js :: "path \<Rightarrow> path" where
  "vite_js ui_dir = ui_dir @ [''node_modules'', ''vite'', ''bin'', ''vite.js'']"


definition shim_disk :: disk where
  "shim_disk = \<lparr>files = [([''u''], Directory 0), ([''u'', ''node_modules''], Directory 0),
     ([''u'', ''node_modules'', ''.bin''], Directory 0),
     ([''u'', ''node_modules'', ''.bin'', ''vite''], Regular ''#!/bin/sh'' 0 True),
     ([''u'', ''node_modules'', ''vite''], Directory 0), ([''u'', ''node_modules'', ''vite'', ''bin''], Directory 0),
     ([''u'', ''node_modules'', ''vite'', ''bin'', ''vite.js''], Regular ''#!/bin/sh'' 0 True)],
     may = (\<lambda>p. True), now = 1\<rparr>"

lemma shim_disk_links: "no_links shim_disk"
  by (auto simp: no_links_def link_of_def node_of_def shim_disk_def)

lemma shim_disk_cli:
  "find_vite_cli [''u''] shim_disk = Inr (Some (vite_js [''u'']))"
  "store_paths shim_disk [''u'', ''node_modules''] store_shim_paths = Inr []"
  by code_simp+



text \<open>Where the start script of Vite is itself one of the broken scripts, it is also the
  program that is found, and the repair makes it import itself: the program is lost.\<close>

lemma vite_cli_imports_itself:
  assumes "no_links d" "isdir d (ui_dir @ [''node_modules''])"
    and "read_text d (vite_js ui_dir) = Inr text" "is_shim text" "may d (vite_js ui_dir)"
  shows "find_vite_cli ui_dir d = Inr (Some (vite_js ui_dir)) \<and>
    read_text (fst (fix_broken_vite_shims ui_dir d)) (vite_js ui_dir) =
      Inr (''import '' @ [CHR 0x27] @ ''./vite.js'' @ [CHR 0x27] @ '';'' @ [CHR 0x0A])"
proof -
  let ?nm = "ui_dir @ [''node_modules'']"
  obtain more stored where st: "store_paths d ?nm cli_paths = Inr more" "store_paths d ?nm store_shim_paths = Inr stored"
    using store_paths_total by metis
  have "isfile d (vite_js ui_dir)"
    using assms(3) by (auto simp: read_text_def isfile_def split: option.splits node.splits)
  then have cli: "find_vite_cli ui_dir d = Inr (Some (vite_js ui_dir))"
    using assms(2) st(1) by (simp add: find_vite_cli_def cli_paths_def vite_js_def)
  have "relpath (vite_js ui_dir) (butlast (vite_js ui_dir)) = [''vite.js'']"
    using common_len_self [of "butlast (vite_js ui_dir)" "[''vite.js'']"]
    by (simp add: relpath_def vite_js_def butlast_append)
  then have "import_line (vite_js ui_dir) (vite_js ui_dir) =
      ''import '' @ [CHR 0x27] @ ''./vite.js'' @ [CHR 0x27] @ '';'' @ [CHR 0x0A]"
    by (simp add: import_line_def startswith_def)
  moreover have "vite_js ui_dir \<in> set (shim_paths ?nm @ stored)" by (simp add: shim_paths_def vite_js_def)
  ultimately show ?thesis
    using repair_shims_result [OF assms(1), of "shim_paths ?nm @ stored" "vite_js ui_dir" "vite_js ui_dir"]
      assms(3-5) cli by (simp add: fix_broken_vite_shims_run [OF cli st(2)])
qed

section \<open>The packages Deno leaves out: nothing is changed\<close>

lemma keeps_conj: "keeps P f \<Longrightarrow> keeps Q f \<Longrightarrow> keeps (\<lambda>d. P d \<and> Q d) f"
  by (simp add: keeps_def)

definition only_adds :: "disk \<Rightarrow> disk \<Rightarrow> bool" where
  "only_adds d0 d \<longleftrightarrow> wf_disk d \<and> extends d0 d"

lemma only_adds_put: "only_adds d0 d \<Longrightarrow> free_place d q \<Longrightarrow> only_adds d0 (put q n d)"
  by (auto simp: only_adds_def wf_put_free extends_def node_of_put free_place_def)

interpretation adds: growth "only_adds d0" for d0
  by unfold_locales (rule only_adds_put)

lemma junction_adds: "keeps (only_adds d0) (make_junction junctions src dst)"
  by (auto simp: keeps_def make_junction_def create_def only_adds_put split: option.split)

text \<open>A copy to a place q that is still free, reached by the path dst.\<close>

definition at_place :: "disk \<Rightarrow> path \<Rightarrow> path \<Rightarrow> disk \<Rightarrow> bool" where
  "at_place d1 q dst d \<longleftrightarrow> extends d1 d \<and> (\<forall>r. prefix q r \<longrightarrow> link_of d r = None) \<and> realpath d dst = Some q"

lemma extends_put_free: "extends d1 d \<Longrightarrow> free_place d q \<Longrightarrow> extends d1 (put q n d)"
  by (auto simp: extends_def node_of_put free_place_def)

interpretation place: growth "at_place d1 q dst" for d1 q dst
  by unfold_locales
     (auto simp: at_place_def extends_put_free link_of_put_free realpath_cong [OF link_of_put_free])

lemma write_at_place:
  assumes "\<And>r. prefix q r \<Longrightarrow> node_of d1 r = None"
  shows "keeps (at_place d1 q dst) (write_node (dst @ xs) s t x)"
proof (rule keepsI)
  fix d assume a: "at_place d1 q dst d"
  then have r: "realpath d (dst @ xs) = Some (q @ xs)"
    by (intro realpath_extend) (auto simp: at_place_def)
  have "at_place d1 q dst (put (q @ xs) (Regular s' t' x') d)"
    if "node_of d (q @ xs) = Some (Regular s0 t0 x0)" for s0 t0 x0 s' t' x'
  proof -
    have "q @ xs \<noteq> []" using that by auto
    moreover have "node_of d1 (q @ xs) = None" using assms by simp
    ultimately have "extends d1 (put (q @ xs) (Regular s' t' x') d)"
      using a by (auto simp: at_place_def extends_def node_of_put)
    with a link_of_put_regular [OF that] realpath_cong [OF link_of_put_regular [OF that]]
    show ?thesis by (simp add: at_place_def)
  qed
  moreover have "at_place d1 q dst (put (q @ xs) (Regular s t x) d)" if "free_place d (q @ xs)"
    using a that by (rule place.grow) simp
  ultimately show "at_place d1 q dst (fst (write_node (dst @ xs) s t x d))"
    using a r by (simp add: write_node_def split: option.split node.split)
qed

lemma copytree_at_place:
  assumes fresh: "\<And>r. prefix q r \<Longrightarrow> node_of d1 r = None"
  shows "keeps (at_place d1 q dst) (copytree k src (dst @ xs))"
proof (induction k arbitrary: src xs)
  case (Suc k)
  have c: "keeps (at_place d1 q dst) (copy2 s (dst @ xs))" for s xs
    using write_at_place [OF fresh] by (simp add: keeps_def copy2_def split: option.split node.split)
  have "keeps (at_place d1 q dst) (\<lambda>d. if isdir d (src @ [name]) then copytree k (src @ [name]) ((dst @ xs) @ [name]) d
      else copy2 (src @ [name]) ((dst @ xs) @ [name]) d)" for name
    using Suc [of "src @ [name]" "xs @ [name]"] c [of "src @ [name]" "xs @ [name]"] by (simp add: keeps_def)
  then have "keeps (at_place d1 q dst) (seq (makedirs (dst @ xs)) (each_io names (\<lambda>name d.
      if isdir d (src @ [name]) then copytree k (src @ [name]) ((dst @ xs) @ [name]) d
      else copy2 (src @ [name]) ((dst @ xs) @ [name]) d)))" for names
    by (intro keeps_intro place.makedirs)
  then show ?case by (simp add: keeps_def split: sum.split)
qed (simp add: keeps_def)

lemma node_below_missing:
  "wf_disk d \<Longrightarrow> node_of d q = None \<Longrightarrow> node_of d (q @ xs) = None"
proof (induction xs rule: rev_induct)
  case (snoc x xs)
  then show ?case using wf_parent [of d "q @ xs @ [x]"]
    by (cases "node_of d (q @ xs @ [x])") (auto simp: butlast_append)
qed simp

text \<open>A path that runs into a circle of links or names a file cannot be made a directory.\<close>

definition blocked :: "path \<Rightarrow> disk \<Rightarrow> bool" where
  "blocked p d \<longleftrightarrow> realpath d p = None \<or> is_regular (stat d p)"

lemma blocked_put:
  assumes "blocked p d" "free_place d q" "plain_node n"
  shows "blocked p (put q n d)"
proof -
  have "stat d p = None" if "realpath d p = Some q"
    using that assms(2) by (simp add: stat_def free_place_def)
  with assms show ?thesis
    by (auto simp: blocked_def stat_put_free realpath_cong [OF link_of_put_free])
qed

interpretation blocked: growth "\<lambda>d. only_adds d0 d \<and> blocked p d" for d0 p
  by unfold_locales (simp add: only_adds_put blocked_put)

lemma mkdir_blocked:
  assumes "blocked p d"
  shows "mkdir p d = (d, Some OSError)" "\<not> isdir d p"
proof -
  have "node_of d q \<noteq> None" if "lpath d p = Some q" for q
    using realpath_of_lpath [OF that] assms
    by (cases "node_of d q") (auto simp: link_of_def blocked_def stat_def)
  then show "mkdir p d = (d, Some OSError)"
    by (auto simp: mkdir_def create_def free_place_def split: option.split)
  show "\<not> isdir d p" using assms
    by (auto simp: isdir_def blocked_def stat_def elim!: is_regularE)
qed

lemma makedirs_blocked:
  assumes "only_adds d0 d" "blocked dst d"
  shows "snd (makedirs dst d) \<noteq> None"
proof -
  let ?f = "for_io (map (\<lambda>i. take i dst) [1..<length dst]) (\<lambda>q. when_io (\<lambda>d. \<not> exists_path d q) (mkdir q))"
  have "keeps (\<lambda>d. only_adds d0 d \<and> blocked dst d) ?f" by (intro keeps_intro blocked.mkdir)
  from keepsD [OF this] assms have "blocked dst (fst (?f d))" by blast
  from mkdir_blocked [OF this] show ?thesis
    unfolding makedirs_def seq_def by (cases "?f d") (auto split: option.split)
qed

lemma copytree_adds:
  assumes "only_adds d0 d" "\<not> isdir d dst"
  shows "only_adds d0 (fst (copytree (Suc k) src dst d))"
proof (cases "blocked dst d")
  case True
  then have "snd (makedirs dst d) \<noteq> None" by (rule makedirs_blocked [OF assms(1)])
  then have "fst (copytree (Suc k) src dst d) = d \<or> fst (copytree (Suc k) src dst d) = fst (makedirs dst d)"
    by (auto simp: seq_def split: sum.split prod.split option.split)
  then show ?thesis using assms(1) keepsD [OF adds.makedirs assms(1)] by metis
next
  case False
  then obtain q where r: "realpath d dst = Some q" by (auto simp: blocked_def)
  have q: "node_of d q = None"
    using False assms(2) realpath_end [OF r] r
    by (auto simp: blocked_def isdir_def stat_def link_of_def split: option.splits node.splits elim!: is_directoryE)
  have wd: "wf_disk d" using assms(1) by (simp add: only_adds_def)
  have fresh: "node_of d r = None" if "prefix q r" for r
    using that node_below_missing [OF wd q] by (auto simp: prefix_def)
  then have "at_place d q dst d" using r by (simp add: at_place_def link_of_def)
  then have "at_place d q dst (fst (copytree (Suc k) src (dst @ []) d))"
    by (rule keepsD [OF copytree_at_place, rotated]) (rule fresh)
  moreover have "wf_disk (fst (copytree (Suc k) src dst d))" by (rule keepsD [OF wf.copytree wd])
  ultimately show ?thesis
    using assms(1) by (auto simp: only_adds_def at_place_def intro: extends_trans)
qed

lemma link_or_copy_adds: "keeps (only_adds d0) (link_or_copy_dir True junctions src dst)"
proof -
  have j: "only_adds d0 (fst (make_junction junctions src dst d))" if "only_adds d0 d" for d
    by (rule keepsD [OF junction_adds that])
  have c: "only_adds d0 (fst (copytree copy_depth src dst d))" if "only_adds d0 d" "\<not> isdir d dst" for d
    using copytree_adds [OF that, of "4095" src] by (simp add: copy_depth_def eval_nat_numeral)
  have "keeps (only_adds d0) (seq (when_io (\<lambda>_. butlast dst \<noteq> []) (makedirs (butlast dst)))
      (\<lambda>d. let d = fst (make_junction junctions src dst d)
         in if isdir d dst then (d, None)
         else let d = fst (make_junction junctions src dst d)
         in if isdir d dst then (d, None) else try_pass (copytree copy_depth src dst) d))"
    by (intro keeps_intro adds.makedirs keepsI) (simp add: Let_def try_pass_def j c)
  then show ?thesis unfolding keeps_def link_or_copy_dir_def simp_thms if_True by simp
qed

lemma fix_package_adds: "keeps (only_adds d0) (fix_package junctions nm_dir inner_nm pkg)"
  unfolding fix_package_def link_missing_def Let_def
  by (cases "startswith pkg ''@''") (simp_all add: keeps_intro link_or_copy_adds)

text \<open>C37: Making the packages Deno leaves out available never raises, changes and removes
  nothing that is on the disk, and keeps its tree well-formed.\<close>

theorem fix_deno_only_adds:
  assumes "wf_disk d"
  shows "snd (fix_deno_windows_node_modules win junctions ui_dir d) = None \<and>
    wf_disk (fst (fix_deno_windows_node_modules win junctions ui_dir d)) \<and>
    (\<forall>p n. node_of d p = Some n \<longrightarrow>
      node_of (fst (fix_deno_windows_node_modules win junctions ui_dir d)) p = Some n)"
proof -
  have "keeps (only_adds d) (fix_deno_windows_node_modules win junctions ui_dir)"
    unfolding fix_deno_windows_node_modules_def Let_def
    by (intro keeps_intro fix_package_adds)
  from keepsD [OF this, of d] assms
  have "only_adds d (fst (fix_deno_windows_node_modules win junctions ui_dir d))"
    by (simp add: only_adds_def)
  moreover have "snd (fix_deno_windows_node_modules win junctions ui_dir d) = None"
    by (simp add: fix_deno_windows_node_modules_def when_io_def try_pass_def Let_def)
  ultimately show ?thesis by (simp add: only_adds_def extends_def)
qed

definition deno_disk :: disk where
  "deno_disk = \<lparr>files = [([''node_modules''], Directory 0), ([''node_modules'', ''.deno''], Directory 0),
     ([''node_modules'', ''.deno'', ''a@1''], Directory 0),
     ([''node_modules'', ''.deno'', ''a@1'', ''node_modules''], Directory 0),
     ([''node_modules'', ''.deno'', ''a@1'', ''node_modules'', ''a''], Directory 0),
     ([''node_modules'', ''.deno'', ''a@1'', ''node_modules'', ''a'', ''a.js''], Regular ''x'' 3 False)],
     may = (\<lambda>p. True), now = 1\<rparr>"

theorem fix_deno_only_adds_witness:
  "node_of deno_disk [''node_modules'', ''a''] = None \<and>
    node_of (fst (fix_deno_windows_node_modules True True [] deno_disk)) [''node_modules'', ''a''] \<noteq> None \<and>
    node_of (fst (fix_deno_windows_node_modules True True [] deno_disk)) [''node_modules'', ''.deno''] = Some (Directory 0)"
proof -
  have "wf_disk deno_disk" by (simp add: wf_disk_def deno_disk_def node_of_def)
  note f = fix_deno_only_adds [OF this, of True True "[]", THEN conjunct2, THEN conjunct2]
  have n: "node_of deno_disk [''node_modules'', ''.deno''] = Some (Directory 0)" by code_simp
  have "node_of deno_disk [''node_modules'', ''a''] = None \<and>
    node_of (fst (fix_deno_windows_node_modules True True [] deno_disk)) [''node_modules'', ''a''] \<noteq> None"
    by code_simp
  then show ?thesis using f n by blast
qed

end
