(* ===== verification/Ui_Builder.thy ===== *)
theory Ui_Builder
  imports Ui_Repair
begin

text \<open>
  ui_builder.py and write_failsafe_client of ui_failsafe.py: what counts as a built client, the
  bundlers that are tried, the fallback client and the public files. The bundlers are programs
  outside the repository: run_tool is what a command does to the disk and its return code, None
  for an exception or a time-out, and which is shutil.which. The two texts of the fallback client
  are arguments (lines 13 to 200 and 204 to 887 of ui_failsafe.py). The updates of the progress
  bar are returned as pairs of the percentage and the detail, in order.
\<close>

section \<open>Building the client\<close>

record host_tools =
  on_windows :: bool
  has_junctions :: bool
  which :: "string \<Rightarrow> string option"
  run_tool :: "string list \<Rightarrow> path \<Rightarrow> disk \<Rightarrow> disk \<times> int option"
  page_html :: string
  page_script :: string

definition is_real_ui_build :: "path \<Rightarrow> disk \<Rightarrow> bool" where
  "is_real_ui_build ui_dir d \<longleftrightarrow>
     (let build_dir = ui_dir @ [''build''];
          assets_dir = build_dir @ [''assets'']
      in isfile d (build_dir @ [''index.html'']) \<and> isdir d assets_dir \<and>
        (case listdir d assets_dir of
           Inr names \<Rightarrow> list_ex (\<lambda>f. endswith f ''.js'') names
         | Inl _ \<Rightarrow> False))"

definition write_failsafe_client :: "host_tools \<Rightarrow> path \<Rightarrow> io" where
  "write_failsafe_client h ui_dir =
     (let ui_build_dir = ui_dir @ [''build''];
          ui_assets_dir = ui_build_dir @ [''assets'']
      in seq (makedirs ui_assets_dir)
        (seq (write_text (ui_build_dir @ [''index.html'']) (page_html h))
          (write_text (ui_assets_dir @ [''client.js'']) (page_script h))))"

text \<open>shutil.which(a) or shutil.which(b)\<close>

definition which_or :: "host_tools \<Rightarrow> string \<Rightarrow> string \<Rightarrow> string option" where
  "which_or h a b = (if nonempty (which h a) then which h a else which h b)"

definition run_bundler :: "host_tools \<Rightarrow> string list \<Rightarrow> path \<Rightarrow> disk \<Rightarrow> disk \<times> bool" where
  "run_bundler h cmd ui_dir d =
     (case run_tool h cmd ui_dir d of (d', res) \<Rightarrow> (d', res = Some 0 \<and> is_real_ui_build ui_dir d'))"

definition run_deno :: "host_tools \<Rightarrow> string \<Rightarrow> path \<Rightarrow> disk \<Rightarrow> disk \<times> bool" where
  "run_deno h deno_cmd ui_dir d =
     (case seq (fix_broken_vite_shims ui_dir)
             (fix_deno_windows_node_modules (on_windows h) (has_junctions h) ui_dir) d of
        (d, Some e) \<Rightarrow> (d, False)
      | (d, None) \<Rightarrow>
          (case find_vite_cli ui_dir d of
             Inr (Some cli_js) \<Rightarrow>
               run_bundler h [deno_cmd, ''run'', ''-A'', path_str (on_windows h) cli_js, ''build''] ui_dir d
           | _ \<Rightarrow> (d, False)))"

type_synonym bar_updates = "(int \<times> string) list"

text \<open>An attempt that is made where nothing has succeeded yet and its condition holds.\<close>

definition attempt ::
  "(disk \<Rightarrow> bool) \<Rightarrow> int \<times> string \<Rightarrow> (disk \<Rightarrow> disk \<times> bool) \<Rightarrow> disk \<times> bar_updates \<times> bool \<Rightarrow> disk \<times> bar_updates \<times> bool" where
  "attempt cond u act s =
     (case s of (d, us, build_success) \<Rightarrow>
        if \<not> build_success \<and> cond d then (case act d of (d, ok) \<Rightarrow> (d, us @ [u], ok)) else s)"

definition try_bundlers :: "host_tools \<Rightarrow> string option \<Rightarrow> path \<Rightarrow> disk \<Rightarrow> disk \<times> bar_updates \<times> bool" where
  "try_bundlers h deno_cmd ui_dir d =
     (let npm_cmd = which_or h ''npm.cmd'' ''npm'';
          yarn_cmd = which_or h ''yarn.cmd'' ''yarn'';
          s = (d, [(10, ''Checking frontend assets...'')], False);
          s = attempt (\<lambda>d. nonempty yarn_cmd \<and> isfile d (ui_dir @ [''yarn.lock''])) (20, ''Running yarn build...'')
                (run_bundler h [the yarn_cmd, ''build''] ui_dir) s;
          s = attempt (\<lambda>d. nonempty npm_cmd \<and> isdir d (ui_dir @ [''node_modules''])) (25, ''Running npm run build...'')
                (run_bundler h [the npm_cmd, ''run'', ''build''] ui_dir) s
      in attempt (\<lambda>d. nonempty deno_cmd) (30, ''Preparing Vite bundler...'') (run_deno h (the deno_cmd) ui_dir) s)"

definition copy_public :: "path \<Rightarrow> io" where
  "copy_public ui_dir =
     (let ui_public_dir = ui_dir @ [''public'']
      in when_io (\<lambda>d. isdir d ui_public_dir)
        (for_dir ui_public_dir (\<lambda>item.
           let s = ui_public_dir @ [item]; t = ui_dir @ [''build'', item]
           in when_io (\<lambda>d. isfile d s \<and> \<not> exists_path d t) (try_pass (copy2 s t)))))"

definition build_frontend_ui ::
  "host_tools \<Rightarrow> path \<Rightarrow> string option \<Rightarrow> disk \<Rightarrow> disk \<times> bar_updates \<times> (py_error + bool)" where
  "build_frontend_ui h src_dir deno_cmd d =
     (let ui_dir = src_dir @ [''ui''];
          ui_build_dir = ui_dir @ [''build'']
      in if \<not> isdir d ui_dir then (d, [], Inr True)
         else case makedirs ui_build_dir d of
             (d, Some e) \<Rightarrow> (d, [], Inl e)
           | (d, None) \<Rightarrow>
               (case try_bundlers h deno_cmd ui_dir d of
                  (d, us, build_success) \<Rightarrow>
                    (let us = us @ (if build_success then [] else [(35, ''Applying resilient WebRTC client...'')])
                     in case seq (when_io (\<lambda>_. \<not> build_success) (write_failsafe_client h ui_dir))
                            (seq (makedirs ui_build_dir) (copy_public ui_dir)) d of
                       (d, Some e) \<Rightarrow> (d, us, Inl e)
                     | (d, None) \<Rightarrow> (d, us, Inr (is_real_ui_build ui_dir d)))))"

section \<open>A built client stays one\<close>

lemma stat_kept:
  assumes "stat d p \<noteq> None" "free_place d q" "plain_node n"
  shows "stat (put q n d) p = stat d p"
proof -
  have "realpath d p \<noteq> Some q" using assms(1,2) by (auto simp: stat_def free_place_def)
  then show ?thesis by (simp add: stat_put_free assms(2,3))
qed

lemma isfile_stat: "isfile d p \<Longrightarrow> stat d p \<noteq> None"
  by (cases "stat d p") (auto simp: isfile_def)

lemma isfile_put_free: "isfile d p \<Longrightarrow> free_place d q \<Longrightarrow> plain_node n \<Longrightarrow> isfile (put q n d) p"
  using stat_kept [of d p q n] by (cases "stat d p") (auto simp: isfile_def)

lemma isdir_put_free: "isdir d p \<Longrightarrow> free_place d q \<Longrightarrow> plain_node n \<Longrightarrow> isdir (put q n d) p"
  using stat_kept [of d p q n] by (cases "stat d p") (auto simp: isdir_def)

lemma isfile_put_regular: "isfile d p \<Longrightarrow> node_of d q = Some (Regular s t x) \<Longrightarrow> isfile (put q (Regular s' t' x') d) p"
  by (auto simp: isfile_def stat_put_regular)

lemma isdir_put_regular: "isdir d p \<Longrightarrow> node_of d q = Some (Regular s t x) \<Longrightarrow> isdir (put q (Regular s' t' x') d) p"
  using stat_put_regular [of d q s t x s' t' x' p] by (auto simp: isdir_def stat_def [of d p])

text \<open>A built client, said by names only.\<close>

definition built :: "path \<Rightarrow> disk \<Rightarrow> bool" where
  "built ui_dir d \<longleftrightarrow> isfile d (ui_dir @ [''build'', ''index.html'']) \<and> isdir d (ui_dir @ [''build'', ''assets'']) \<and>
     (\<exists>r f. realpath d (ui_dir @ [''build'', ''assets'']) = Some r \<and> endswith f ''.js'' \<and> node_of d (r @ [f]) \<noteq> None)"

lemma is_real_ui_build_iff: "is_real_ui_build ui_dir d \<longleftrightarrow> built ui_dir d"
proof (cases "isdir d (ui_dir @ [''build'', ''assets''])")
  case True
  then obtain r where "realpath d (ui_dir @ [''build'', ''assets'']) = Some r"
      "listdir d (ui_dir @ [''build'', ''assets'']) = Inr (children d r)"
    by (rule isdir_listdir)
  with True show ?thesis
    by (auto simp: is_real_ui_build_def built_def list_ex_iff mem_children Bex_def)
qed (simp add: is_real_ui_build_def built_def)

interpretation built: growth_and_writes "built ui_dir" for ui_dir
proof
  fix d q n assume a: "built ui_dir d" "free_place d q" "plain_node n"
  have "q \<noteq> []" using a(2) by (simp add: free_place_def)
  with a show "built ui_dir (put q n d)"
    by (auto simp: built_def isfile_put_free isdir_put_free realpath_cong [OF link_of_put_free] node_of_put)
next
  fix d q s t x s' t' x' assume a: "built ui_dir d" "node_of d q = Some (Regular s t x)"
  have "q \<noteq> []" using a(2) by auto
  with a show "built ui_dir (put q (Regular s' t' x') d)"
    by (auto simp: built_def isfile_put_regular isdir_put_regular realpath_cong [OF link_of_put_regular] node_of_put)
qed

section \<open>The fallback client\<close>

lemma write_node_isfile:
  assumes "write_node p s t x d = (d', None)"
  shows "isfile d' p"
proof -
  obtain q where r: "realpath d p = Some q" using assms by (auto simp: write_node_def split: option.splits)
  show ?thesis
  proof (cases "node_of d q")
    case None
    with assms r have "free_place d q" "d' = put q (Regular s t x) d"
      by (auto simp: write_node_def split: if_splits)
    with r show ?thesis by (simp add: isfile_def stat_put_free)
  next
    case (Some n)
    with assms r obtain s0 t0 x0 where "n = Regular s0 t0 x0" "d' = put q (Regular s t (x \<or> x0)) d"
      by (auto simp: write_node_def split: node.splits if_splits)
    with Some r show ?thesis by (simp add: isfile_def stat_put_regular)
  qed
qed

lemma makedirs_isdir:
  assumes "makedirs p d = (d', None)"
  shows "isdir d' p"
proof -
  have m: "isdir d2 p" if "mkdir p d1 = (d2, None)" for d1 d2
  proof -
    from that obtain q where q: "lpath d1 p = Some q" "free_place d1 q" "d2 = put q (Directory (now d1)) d1"
      by (auto simp: mkdir_def create_def split: option.splits if_splits)
    then have "realpath d1 p = Some q"
      using realpath_of_lpath [OF q(1)] by (simp add: free_place_def link_of_def)
    with q show ?thesis by (simp add: isdir_def stat_put_free)
  qed
  from assms show ?thesis
    by (auto simp: makedirs_def seq_def split: prod.splits option.splits if_splits intro: m)
qed

interpretation dir_kept: growth_and_writes "\<lambda>d. isdir d p" for p
  by unfold_locales (rule isdir_put_free isdir_put_regular; assumption)+

interpretation file_kept: growth_and_writes "\<lambda>d. isfile d p" for p
  by unfold_locales (rule isfile_put_free isfile_put_regular; assumption)+

lemma write_failsafe_client_built:
  assumes "write_failsafe_client h ui_dir d = (d', None)"
  shows "built ui_dir d'"
proof -
  let ?assets = "ui_dir @ [''build'', ''assets'']"
  obtain d1 d2 where s: "makedirs ?assets d = (d1, None)"
      "write_text (ui_dir @ [''build'', ''index.html'']) (page_html h) d1 = (d2, None)"
      "write_text (?assets @ [''client.js'']) (page_script h) d2 = (d', None)"
    using assms by (auto simp: write_failsafe_client_def seq_def split: prod.splits option.splits)
  have "isdir d1 ?assets" by (rule makedirs_isdir [OF s(1)])
  then have "isdir d2 ?assets" by (rule keeps_result [OF dir_kept.write_text _ s(2)])
  then have a: "isdir d' ?assets" by (rule keeps_result [OF dir_kept.write_text _ s(3)])
  have "isfile d2 (ui_dir @ [''build'', ''index.html''])"
    using s(2) by (auto simp: write_text_def dest: write_node_isfile)
  then have i: "isfile d' (ui_dir @ [''build'', ''index.html''])"
    by (rule keeps_result [OF file_kept.write_text _ s(3)])
  have "isfile d' (?assets @ [''client.js''])"
    using s(3) by (auto simp: write_text_def dest: write_node_isfile)
  then have "stat d' (?assets @ [''client.js'']) \<noteq> None" by (rule isfile_stat)
  from child_of_stat [OF this] a i show ?thesis
    by (auto simp: built_def intro!: exI [of _ "''client.js''"] simp: endswith_def)
qed

lemma copy_public_keeps_built: "keeps (built ui_dir) (copy_public ui_dir)"
  unfolding copy_public_def Let_def by (intro keeps_intro built.copy2)

lemma attempt_built:
  assumes "\<And>d d'. act d = (d', True) \<Longrightarrow> built ui_dir d'" "snd (snd s) \<Longrightarrow> built ui_dir (fst s)"
  shows "snd (snd (attempt cond u act s)) \<Longrightarrow> built ui_dir (fst (attempt cond u act s))"
  using assms by (auto simp: attempt_def split: prod.splits if_splits)

lemma try_bundlers_built: "try_bundlers h deno_cmd ui_dir d = (d', us, True) \<Longrightarrow> built ui_dir d'"
proof -
  have r: "run_bundler h cmd ui_dir d = (d', True) \<Longrightarrow> built ui_dir d'" for cmd d d'
    by (auto simp: run_bundler_def is_real_ui_build_iff split: prod.splits)
  have n: "run_deno h c ui_dir d = (d', True) \<Longrightarrow> built ui_dir d'" for c d d'
    by (auto simp: run_deno_def intro: r split: prod.splits option.splits sum.splits)
  have "snd (snd (try_bundlers h deno_cmd ui_dir d)) \<Longrightarrow> built ui_dir (fst (try_bundlers h deno_cmd ui_dir d))"
    unfolding try_bundlers_def Let_def by (erule attempt_built [rotated -1], erule n) (erule attempt_built [rotated -1], erule r, erule attempt_built [rotated -1], erule r, simp)
  then show "try_bundlers h deno_cmd ui_dir d = (d', us, True) \<Longrightarrow> built ui_dir d'" by simp
qed

lemma build_frontend_ui_built:
  assumes "build_frontend_ui h src_dir deno_cmd d = (d', us, Inr b)" "isdir d (src_dir @ [''ui''])"
  shows "built (src_dir @ [''ui'']) d' \<and> b"
proof -
  let ?ui = "src_dir @ [''ui'']"
  obtain d1 d2 vs ok where t: "try_bundlers h deno_cmd ?ui d1 = (d2, vs, ok)"
      "seq (when_io (\<lambda>_. \<not> ok) (write_failsafe_client h ?ui)) (seq (makedirs (?ui @ [''build''])) (copy_public ?ui)) d2 = (d', None)"
      "b = is_real_ui_build ?ui d'"
    using assms by (auto simp: build_frontend_ui_def Let_def split: prod.splits option.splits)
  obtain d3 where d3: "when_io (\<lambda>_. \<not> ok) (write_failsafe_client h ?ui) d2 = (d3, None)"
      "seq (makedirs (?ui @ [''build''])) (copy_public ?ui) d3 = (d', None)"
    using t(2) by (auto simp: seq_def [of "when_io _ _"] split: prod.splits option.splits)
  have "built ?ui d3"
    using t(1) d3(1) try_bundlers_built write_failsafe_client_built
    by (cases ok) (auto simp: when_io_def)
  then have "built ?ui d'"
    by (rule keeps_result [OF keeps_seq [OF built.makedirs copy_public_keeps_built] _ d3(2)])
  with t(3) show ?thesis by (simp add: is_real_ui_build_iff)
qed

text \<open>The percentages of the bar grow from 10 to at most 35.\<close>

definition rising :: "int \<Rightarrow> bar_updates \<Rightarrow> bool" where
  "rising n us \<longleftrightarrow> sorted_wrt (<) (map fst us) \<and> (\<forall>u \<in> set us. 10 \<le> fst u \<and> fst u \<le> n)"

lemma rising_snoc: "rising n us \<Longrightarrow> n < fst u \<Longrightarrow> 10 \<le> fst u \<Longrightarrow> rising (fst u) (us @ [u])"
  by (fastforce simp: rising_def sorted_wrt_append)

lemma rising_mono: "rising n us \<Longrightarrow> n \<le> m \<Longrightarrow> rising m us"
  by (fastforce simp: rising_def)

lemma rising_attempt:
  assumes "rising n (fst (snd s))" "n < fst u" "10 \<le> fst u"
  shows "rising (fst u) (fst (snd (attempt cond u act s)))"
  using assms rising_snoc [OF assms] rising_mono [of n _ "fst u"]
  by (cases s) (auto simp: attempt_def case_prod_beta)

lemma try_bundlers_rising: "rising 30 (fst (snd (try_bundlers h deno_cmd ui_dir d)))"
proof -
  have r: "rising 10 (fst (snd (d, [(10, ''Checking frontend assets...'')], False)))" by (simp add: rising_def)
  show ?thesis
    unfolding try_bundlers_def Let_def
    by (rule rising_attempt [where u = "(30, z)" for z, simplified], rule rising_attempt [where u = "(25, y)" for y, simplified],
        rule rising_attempt [where u = "(20, x)" for x, simplified], rule r) simp_all
qed

lemma ui_updates:
  assumes "build_frontend_ui h src_dir deno_cmd d = (d', us, r)"
  shows "rising 35 us"
proof -
  have "rising 30 vs" if "try_bundlers h deno_cmd ui_dir d = (d', vs, ok)" for ui_dir d d' vs ok
    using try_bundlers_rising [of h deno_cmd ui_dir d] that by simp
  moreover have "rising 35 []" by (simp add: rising_def)
  ultimately show ?thesis
    using assms rising_snoc [where n = 30 and u = "(35, x)" for x] rising_mono [where n = 30 and m = 35]
    by (auto simp: build_frontend_ui_def Let_def split: prod.splits option.splits if_splits)
qed

text \<open>C15: build_frontend_ui never ends without a client: unless an exception leaves it, its
  result is True, and with a ui directory the build directory then holds the page and a script,
  whatever the bundlers did to the disk, by a fallback client where they failed; without one
  nothing is changed.\<close>

theorem build_frontend_ui_correct:
  "case build_frontend_ui h src_dir deno_cmd d of
     (d', us, Inl e) \<Rightarrow> isdir d (src_dir @ [''ui''])
   | (d', us, Inr b) \<Rightarrow> b \<and> (if isdir d (src_dir @ [''ui'']) then is_real_ui_build (src_dir @ [''ui'']) d' else d' = d)"
proof (cases "isdir d (src_dir @ [''ui''])")
  case True
  obtain d' us r where r: "build_frontend_ui h src_dir deno_cmd d = (d', us, r)" by (cases "build_frontend_ui h src_dir deno_cmd d")
  with True build_frontend_ui_built [of h src_dir deno_cmd d d'] show ?thesis
    by (cases r) (auto simp: is_real_ui_build_iff)
qed (simp add: build_frontend_ui_def)

end
