(* ===== verification/Progress_Bar.thy ===== *)
theory Progress_Bar
  imports Py_Str
begin

text \<open>
  progress_bar.py: the line that ConsoleProgressBar writes to the console. A line is a list of
  code points, since the spinner and the bar are not ASCII. Times are in microseconds, and the
  percentages are integers, as in all calls of the host; for those the floating-point product of
  the code, rounded towards zero, is the integer quotient below.
\<close>

section \<open>State and lines\<close>

type_synonym utext = "nat list"

record progress_bar =
  current_step :: int
  task :: string
  detail :: string
  spinner_idx :: nat
  start_time :: int

definition spinner_chars :: utext where
  "spinner_chars = [0x280B, 0x2819, 0x2839, 0x2838, 0x283C, 0x2834, 0x2826, 0x2827, 0x2807, 0x280F]"

definition init_bar :: "string \<Rightarrow> int \<Rightarrow> progress_bar" where
  "init_bar t time = \<lparr>current_step = 0, task = t, detail = '''', spinner_idx = 0, start_time = time\<rparr>"

definition uni :: "string \<Rightarrow> utext" where
  "uni s = map of_char s"

definition str_int :: "int \<Rightarrow> string" where
  "str_int i = (if i < 0 then CHR ''-'' # str_nat (nat (- i)) else str_nat (nat i))"

definition elapsed_str :: "progress_bar \<Rightarrow> int \<Rightarrow> string" where
  "elapsed_str b time =
     (let elapsed = time - start_time b
      in str_int (if elapsed < 0 then - ((- elapsed) div 1000000) else elapsed div 1000000) @ ''s'')"

definition rjust :: "nat \<Rightarrow> string \<Rightarrow> string" where
  "rjust w s = replicate (w - length s) (CHR '' '') @ s"

definition ljust :: "nat \<Rightarrow> utext \<Rightarrow> utext" where
  "ljust w s = s @ replicate (w - length s) 32"

definition bar_len :: nat where
  "bar_len = 24"

definition filled_len :: "int \<Rightarrow> nat" where
  "filled_len step = nat (int bar_len * step div 100)"

definition bar_text :: "int \<Rightarrow> utext" where
  "bar_text step = replicate (filled_len step) 0x2588 @ replicate (bar_len - filled_len step) 0x2591"

definition det_text :: "string \<Rightarrow> string" where
  "det_text dt = (let det = (if dt \<noteq> '''' then '' | '' @ dt else '''')
     in if 36 < length det then take 33 det @ ''...'' else det)"

definition update_bar :: "int \<Rightarrow> string option \<Rightarrow> string \<Rightarrow> int \<Rightarrow> progress_bar \<Rightarrow> progress_bar \<times> utext" where
  "update_bar percent tk dt time b =
     (let b = b\<lparr>current_step := max 0 (min 100 percent)\<rparr>;
          b = (if nonempty tk then b\<lparr>task := the tk\<rparr> else b);
          b = b\<lparr>detail := dt, spinner_idx := (spinner_idx b + 1) mod length spinner_chars\<rparr>;
          line = [13, spinner_chars ! spinner_idx b] @ uni '' ['' @ bar_text (current_step b) @
            uni (''] '' @ rjust 3 (str_int (current_step b)) @ ''% ('' @ elapsed_str b time @ '') '' @ task b @ det_text dt)
      in (b, ljust 85 line))"

definition finish_line :: "string \<Rightarrow> int \<Rightarrow> progress_bar \<Rightarrow> utext" where
  "finish_line message time b =
     (let line = [13, 0x2714] @ uni '' ['' @ replicate 24 0x2588 @ uni (''] 100% ('' @ elapsed_str b time @ '') '' @ message)
      in ljust 85 line @ [10])"

section \<open>Bounds\<close>

lemma filled_len_bounds: "0 \<le> s \<Longrightarrow> s \<le> 100 \<Longrightarrow> filled_len s \<le> bar_len"
  by (simp add: filled_len_def bar_len_def)

lemma bar_text_length: "0 \<le> s \<Longrightarrow> s \<le> 100 \<Longrightarrow> length (bar_text s) = 24"
  using filled_len_bounds [of s] by (simp add: bar_text_def bar_len_def)

lemma det_text_length: "length (det_text dt) \<le> 36"
  by (simp add: det_text_def Let_def)

lemma ljust_length: "w \<le> length (ljust w s)"
  by (simp add: ljust_def)

lemma spinner_length: "length spinner_chars = 10"
  by (simp add: spinner_chars_def)

fun updates :: "(int \<times> string option \<times> string \<times> int) list \<Rightarrow> progress_bar \<Rightarrow> progress_bar" where
  "updates [] b = b"
| "updates ((p, tk, dt, time) # us) b = updates us (fst (update_bar p tk dt time b))"

lemma update_bar_step: "current_step (fst (update_bar p tk dt time b)) = max 0 (min 100 p)"
  "spinner_idx (fst (update_bar p tk dt time b)) = (spinner_idx b + 1) mod 10"
  by (auto simp: update_bar_def Let_def spinner_length)

lemma updates_bounds:
  "0 \<le> current_step b \<Longrightarrow> current_step b \<le> 100 \<Longrightarrow> spinner_idx b < 10 \<Longrightarrow>
    0 \<le> current_step (updates us b) \<and> current_step (updates us b) \<le> 100 \<and>
    spinner_idx (updates us b) = (spinner_idx b + length us) mod 10"
proof (induction us b rule: updates.induct)
  case (2 p tk dt time us b)
  then show ?case by (simp add: update_bar_step mod_simps del: update_bar_def)
qed simp

text \<open>After any number of updates with any percentages the shown percentage lies between 0
  and 100, the spinner index is inside its list, the bar has 24 cells of which the filled
  ones are the rounded-down share, and every line covers at least 85 columns, so that it
  overwrites a shorter line before it.\<close>

lemma progress_line_bounds:
  "let b = updates us (init_bar t time0); r = update_bar p tk dt time b
   in 0 \<le> current_step (fst r) \<and> current_step (fst r) \<le> 100 \<and>
      spinner_idx (fst r) = (length us + 1) mod length spinner_chars \<and>
      length (bar_text (current_step (fst r))) = 24 \<and>
      count_list (bar_text (current_step (fst r))) 0x2588 = nat (24 * max 0 (min 100 p) div 100) \<and>
      85 \<le> length (snd r) \<and> length (det_text dt) \<le> 36"
proof -
  let ?b = "updates us (init_bar t time0)"
  have i: "spinner_idx ?b = length us mod 10"
    using updates_bounds [of "init_bar t time0" us] by (simp add: init_bar_def)
  have s: "0 \<le> max 0 (min 100 p)" "max 0 (min 100 p) \<le> 100" by simp_all
  have "count_list (replicate n a) a' = (if a = a' then n else 0)" for n and a a' :: nat
    by (induction n) auto
  then have "count_list (bar_text s) 0x2588 = filled_len s" for s by (simp add: bar_text_def)
  moreover have "85 \<le> length (snd (update_bar p tk dt time ?b))"
    unfolding update_bar_def Let_def snd_conv by (rule ljust_length)
  ultimately show ?thesis
    using s bar_text_length [OF s] det_text_length [of dt]
    by (simp add: Let_def update_bar_step i spinner_length mod_simps filled_len_def bar_len_def)
qed

end
