(* ===== verification/Go_Builder.thy ===== *)
theory Go_Builder
  imports Ui_Builder System_Env Progress_Bar
begin

text \<open>
  go_builder.py: when the server is built again, the build with its progress, and the search for
  the binary. The Go compiler is a program outside the repository: go_build is what its command
  does to the disk, with the lines it prints and its return code, None for an exception. Programs
  outside the source tree are named by texts, and tool_isfile says which of them are files.
\<close>

section \<open>When to build\<close>

fun any_newer :: "disk \<Rightarrow> nat \<Rightarrow> path list \<Rightarrow> py_error + bool" where
  "any_newer d t [] = Inr False"
| "any_newer d t (p # ps) =
     (case getmtime d p of
        Inl e \<Rightarrow> Inl e
      | Inr m \<Rightarrow> if t < m then Inr True else any_newer d t ps)"

text \<open>One test after another: the first that answers True or raises decides.\<close>

fun first_true :: "(py_error + bool) list \<Rightarrow> py_error + bool" where
  "first_true [] = Inr False"
| "first_true (r # rs) = (case r of Inr False \<Rightarrow> first_true rs | _ \<Rightarrow> r)"

definition check_files :: "string list" where
  "check_files = [''ui_builder.py'', ''go_builder.py'', ''process_util.py'', ''server_builder.py'', ''ui_failsafe.py'']"

text \<open>The files os.walk yields below a directory, in some order: links to directories are not
  entered, and neither are directories with a pruned name.\<close>

definition walk_files :: "disk \<Rightarrow> string list \<Rightarrow> path \<Rightarrow> path list" where
  "walk_files d pruned root =
     (case realpath d root of
        None \<Rightarrow> []
      | Some r \<Rightarrow>
          map (\<lambda>q. root @ drop (length r) q)
            (filter (\<lambda>q. strict_prefix r q \<and> list_all (\<lambda>c. c \<notin> set pruned) (butlast (drop (length r) q)) \<and>
                \<not> isdir d (root @ drop (length r) q))
              (map fst (files d))))"

definition needs_rebuild :: "path \<Rightarrow> path \<Rightarrow> disk \<Rightarrow> py_error + bool" where
  "needs_rebuild src_dir out_bin d =
     (if \<not> isfile d out_bin then Inr True
      else case getmtime d out_bin of
          Inl e \<Rightarrow> Inl e
        | Inr bin_mtime \<Rightarrow>
            (let ui_dir = src_dir @ [''ui''];
                 ui_build_assets = ui_dir @ [''build'', ''assets''];
                 ui_src = ui_dir @ [''src'']
             in first_true
                  [any_newer d bin_mtime (filter (isfile d) (map (\<lambda>f. src_dir @ [f]) check_files)),
                   Inr (\<not> is_real_ui_build ui_dir d),
                   if isdir d ui_build_assets
                   then case listdir d ui_build_assets of
                       Inl e \<Rightarrow> Inl e
                     | Inr names \<Rightarrow> any_newer d bin_mtime (map (\<lambda>f. ui_build_assets @ [f]) names)
                   else Inr False,
                   if isdir d ui_src then any_newer d bin_mtime (walk_files d [] ui_src) else Inr False,
                   any_newer d bin_mtime
                     (filter (\<lambda>p. endswith (last p) ''.go'') (walk_files d [''ui''] src_dir))]))"

section \<open>The build\<close>

record go_tools = host_tools +
  go_build :: "string list \<Rightarrow> env \<Rightarrow> path \<Rightarrow> disk \<Rightarrow> disk \<times> (string list \<times> int) option"
  tool_isfile :: "string \<Rightarrow> bool"
  os_environ :: env
  home_dir :: string

definition is_sep :: "bool \<Rightarrow> char \<Rightarrow> bool" where
  "is_sep win c \<longleftrightarrow> c = CHR ''/'' \<or> (win \<and> c = CHR 0x5C)"

text \<open>os.path.dirname of the platform; a drive letter stays.\<close>

definition os_dirname :: "bool \<Rightarrow> string \<Rightarrow> string" where
  "os_dirname win p =
     (let drive = (if win \<and> 2 \<le> length p \<and> p ! 1 = CHR '':'' then take 2 p else []);
          rest = drop (length drive) p;
          h = rstrip_set (\<lambda>c. \<not> is_sep win c) rest
      in drive @ (if list_all (is_sep win) h then h else rstrip_set (is_sep win) h))"

text \<open>os.path.join with relative names\<close>

definition os_join :: "bool \<Rightarrow> string \<Rightarrow> string list \<Rightarrow> string" where
  "os_join win a names =
     foldl (\<lambda>acc b. if acc = [] \<or> is_sep win (last acc) \<or> (win \<and> last acc = CHR '':'') then acc @ b
       else acc @ (if win then [CHR 0x5C] else ''/'') @ b) a names"

definition env_or :: "env \<Rightarrow> string \<Rightarrow> string \<Rightarrow> string" where
  "env_or env k v = (case env k of Some x \<Rightarrow> x | None \<Rightarrow> v)"

text \<open>What one line of the compiler shows: the percentage and the detail.\<close>

definition go_line :: "int \<Rightarrow> string \<Rightarrow> int \<times> string" where
  "go_line pct line =
     (let clean_line = strip line
      in if contains ''downloading'' clean_line then
           (let parts = split_ws clean_line;
                dt = (if 1 < length parts then parts ! 1 else clean_line);
                dt = (if CHR ''/'' \<in> set dt then last (split_on (CHR ''/'') dt) else dt)
            in (min 82 (pct + 1), ''Downloading '' @ dt))
         else if startswith clean_line ''github.com/'' \<or> startswith clean_line ''golang.org/'' then
           (min 96 (pct + 1), ''Compiling '' @ last (split_on (CHR ''/'') clean_line))
         else (pct, take 30 clean_line))"

fun go_updates :: "int \<Rightarrow> string list \<Rightarrow> (int \<times> string) list" where
  "go_updates pct [] = []"
| "go_updates pct (line # lines) = go_line pct line # go_updates (fst (go_line pct line)) lines"

definition build_env :: "bool \<Rightarrow> env \<Rightarrow> string \<Rightarrow> env" where
  "build_env win env go_cmd =
     (let env = env(''CGO_ENABLED'' \<mapsto> ''0'')
      in env(''PATH'' \<mapsto> os_dirname win go_cmd @ (if win then '';'' else '':'') @ env_get env ''PATH''))"

definition build_cmd :: "bool \<Rightarrow> string \<Rightarrow> path \<Rightarrow> string list" where
  "build_cmd win go_cmd out_bin =
     [go_cmd, ''build'', ''-v'', ''-ldflags=-s -w -X main.mode=prod'', ''-o'', path_str win out_bin, ''.'']"

text \<open>The disk after the build, the updates of the progress bar, and whether it succeeded.\<close>

definition compile_go_binary ::
  "go_tools \<Rightarrow> path \<Rightarrow> path \<Rightarrow> string \<Rightarrow> disk \<Rightarrow> disk \<times> (int \<times> string) list \<times> bool" where
  "compile_go_binary h src_dir out_bin go_cmd d =
     (let win = on_windows h;
          start = (45, ''Initializing Go compiler...'');
          d = fst (safely_remove_target win out_bin d)
      in case go_build h (build_cmd win go_cmd out_bin) (build_env win (os_environ h) go_cmd) src_dir d of
           (d, None) \<Rightarrow> (d, [start], False)
         | (d, Some (lines, returncode)) \<Rightarrow>
             if returncode = 0 \<and> isfile d out_bin
             then ((if win then d else fst (chmod_exec out_bin d)), start # go_updates 48 lines, True)
             else (d, start # go_updates 48 lines, False))"

section \<open>The search for the binary\<close>

definition search_dirs :: "path \<Rightarrow> path \<Rightarrow> path list" where
  "search_dirs base cwd =
     [base @ [''server''], base, cwd @ [''server''], cwd, butlast base @ [''server''], butlast base]"

definition bin_names :: "bool \<Rightarrow> string list" where
  "bin_names win = (if win then [''ScreenShare.exe'', ''screenshare.exe''] else [''ScreenShare'', ''screenshare''])"

definition first_tool :: "go_tools \<Rightarrow> string option list \<Rightarrow> string option" where
  "first_tool h cands =
     (case find (\<lambda>c. nonempty c \<and> tool_isfile h (the c)) cands of Some c \<Rightarrow> c | None \<Rightarrow> None)"

definition find_deno :: "go_tools \<Rightarrow> string option" where
  "find_deno h =
     (let win = on_windows h; env = os_environ h
      in first_tool h
        [which h ''deno'', which h ''deno.exe'',
         Some (os_join win (env_or env ''USERPROFILE'' '''') [''.deno'', ''bin'', ''deno.exe'']),
         Some (os_join win (env_or env ''LocalAppData'' '''') [''deno'', ''deno.exe'']),
         Some (expanduser (home_dir h) ''~/.deno/bin/deno''), Some (expanduser (home_dir h) ''~/.local/bin/deno'')])"

definition win_path :: "string list \<Rightarrow> string" where
  "win_path names = join (CHR 0x5C) names"

definition find_go :: "go_tools \<Rightarrow> string option" where
  "find_go h =
     (let win = on_windows h; env = os_environ h
      in first_tool h
        [which h ''go'', which h ''go.exe'',
         Some (os_join win (env_or env ''ProgramFiles'' (win_path [''C:'', ''Program Files''])) [''Go'', ''bin'', ''go.exe'']),
         Some (os_join win (env_or env ''ProgramFiles(x86)'' (win_path [''C:'', ''Program Files (x86)''])) [''Go'', ''bin'', ''go.exe'']),
         Some (os_join win (env_or env ''LocalAppData'' '''') [''Programs'', ''Go'', ''bin'', ''go.exe'']),
         Some (win_path [''C:'', ''Go'', ''bin'', ''go.exe'']),
         Some (os_join win (env_or env ''USERPROFILE'' '''') [''go'', ''bin'', ''go.exe'']),
         Some (expanduser (home_dir h) ''~/.local/go/bin/go''), Some (expanduser (home_dir h) ''~/go/bin/go''),
         Some ''/usr/local/go/bin/go'', Some ''/usr/bin/go''])"

text \<open>A binary is found at a path of the disk, or by its name in PATH.\<close>

datatype server_bin = At path | Named string

definition search_binary :: "go_tools \<Rightarrow> path list \<Rightarrow> disk \<Rightarrow> disk \<times> server_bin option" where
  "search_binary h dirs d =
     (let win = on_windows h
      in case find (isfile d) (concat (map (\<lambda>b. map (\<lambda>name. b @ [name]) (bin_names win)) dirs)) of
           Some p \<Rightarrow> ((if \<not> win \<and> \<not> x_ok d p then fst (chmod_exec p d) else d), Some (At p))
         | None \<Rightarrow>
             (d, (case find nonempty (map (which h) (bin_names win)) of
                    Some (Some s) \<Rightarrow> Some (Named s) | _ \<Rightarrow> None)))"

text \<open>A rebuild: the disk, the updates of the progress bar and whether the server was compiled.\<close>

definition rebuild :: "go_tools \<Rightarrow> path \<Rightarrow> path \<Rightarrow> disk \<Rightarrow> disk \<times> bar_updates \<times> (py_error + bool)" where
  "rebuild h src_dir out_bin d =
     (let start = (5, ''Checking compilers...'')
      in case build_frontend_ui (host_tools.truncate h) src_dir (find_deno h) d of
           (d, us, Inl e) \<Rightarrow> (d, start # us, Inl e)
         | (d, us, Inr _) \<Rightarrow>
             (case find_go h of
                None \<Rightarrow> (d, start # us, Inr False)
              | Some go_cmd \<Rightarrow>
                  (case compile_go_binary h src_dir out_bin go_cmd d of
                     (d, vs, compile_success) \<Rightarrow> (d, start # us @ vs, Inr compile_success))))"

definition find_or_build_binary ::
  "go_tools \<Rightarrow> path \<Rightarrow> path \<Rightarrow> disk \<Rightarrow> disk \<times> (py_error + server_bin option)" where
  "find_or_build_binary h base cwd d =
     (let dirs = search_dirs base cwd;
          search = (\<lambda>d. case search_binary h dirs d of (d, r) \<Rightarrow> (d, Inr r))
      in case find (\<lambda>b. isfile d (b @ [''main.go''])) dirs of
           None \<Rightarrow> search d
         | Some src_dir \<Rightarrow>
             (let out_bin = src_dir @ [hd (bin_names (on_windows h))]
              in case needs_rebuild src_dir out_bin d of
                   Inl e \<Rightarrow> (d, Inl e)
                 | Inr False \<Rightarrow> search d
                 | Inr True \<Rightarrow>
                     (case rebuild h src_dir out_bin d of
                        (d, us, Inl e) \<Rightarrow> (d, Inl e)
                      | (d, us, Inr compile_success) \<Rightarrow>
                          if compile_success then (d, Inr (Some (At out_bin))) else search d)))"

section \<open>When nothing is to be built\<close>

text \<open>What the binary depends on, said without loops: the scripts, the assets of the client, all
  files of its sources, and the Go files outside directories named ui.\<close>

definition build_inputs :: "path \<Rightarrow> disk \<Rightarrow> path set" where
  "build_inputs src_dir d =
     {p. isfile d p \<and> (\<exists>f \<in> set check_files. p = src_dir @ [f])} \<union>
     {p. node_of d p \<noteq> None \<and> (\<exists>f. p = src_dir @ [''ui'', ''build'', ''assets'', f])} \<union>
     {p. node_of d p \<noteq> None \<and> \<not> isdir d p \<and> (\<exists>ns. ns \<noteq> [] \<and> p = src_dir @ [''ui'', ''src''] @ ns)} \<union>
     {p. node_of d p \<noteq> None \<and> \<not> isdir d p \<and> endswith (last p) ''.go'' \<and>
         (\<exists>ns. ns \<noteq> [] \<and> ''ui'' \<notin> set (butlast ns) \<and> p = src_dir @ ns)}"

definition mtime_of :: "disk \<Rightarrow> path \<Rightarrow> nat" where
  "mtime_of d p = (case getmtime d p of Inr m \<Rightarrow> m | Inl _ \<Rightarrow> 0)"

lemma any_newer_total:
  "(\<And>p. p \<in> set ps \<Longrightarrow> \<exists>m. getmtime d p = Inr m) \<Longrightarrow> any_newer d t ps = Inr (\<exists>p \<in> set ps. t < mtime_of d p)"
proof (induction ps)
  case (Cons p ps)
  from Cons.prems [of p] obtain m where "getmtime d p = Inr m" by auto
  with Cons show ?case by (auto simp: mtime_of_def)
qed simp

lemma first_true_total: "first_true (map Inr bs) = Inr (\<exists>b \<in> set bs. b)"
  by (induction bs) (auto split: bool.split)

declare first_true.simps [simp del]

lemma isfile_getmtime: "isfile d p \<Longrightarrow> \<exists>m. getmtime d p = Inr m"
  by (cases "stat d p") (auto simp: isfile_def getmtime_def elim!: is_regularE)

lemma getmtime_no_links: "no_links d \<Longrightarrow> node_of d p \<noteq> None \<Longrightarrow> \<exists>m. getmtime d p = Inr m"
proof -
  assume a: "no_links d" "node_of d p \<noteq> None"
  then obtain n where n: "node_of d p = Some n" by blast
  with a(1) have "n \<noteq> Link j t" for j t by (auto simp: no_links_def link_of_def dest: spec [of _ p])
  with n a(1) show ?thesis by (cases n) (auto simp: getmtime_def stat_no_links)
qed

lemma walk_files_no_links:
  assumes "no_links d"
  shows "set (walk_files d pruned root) =
    {p. node_of d p \<noteq> None \<and> \<not> isdir d p \<and> (\<exists>ns. ns \<noteq> [] \<and> set (butlast ns) \<inter> set pruned = {} \<and> p = root @ ns)}"
proof -
  have r: "realpath d root = Some root" using assms by (simp add: no_links_def realpath_plain)
  have m: "root @ ns \<in> set (map fst (files d)) \<longleftrightarrow> node_of d (root @ ns) \<noteq> None" if "ns \<noteq> []" for ns
    using that node_of_mem [of "root @ ns" d] by simp
  show ?thesis
  proof (intro set_eqI iffI)
    fix p assume "p \<in> set (walk_files d pruned root)"
    then obtain q where q: "q \<in> set (map fst (files d))" "strict_prefix root q" "p = root @ drop (length root) q"
        "list_all (\<lambda>c. c \<notin> set pruned) (butlast (drop (length root) q))" "\<not> isdir d p"
      by (auto simp: walk_files_def r)
    then obtain ns where "q = root @ ns" "ns \<noteq> []" by (auto simp: strict_prefix_def prefix_def)
    with q m [of ns] show "p \<in> {p. node_of d p \<noteq> None \<and> \<not> isdir d p \<and> (\<exists>ns. ns \<noteq> [] \<and> set (butlast ns) \<inter> set pruned = {} \<and> p = root @ ns)}"
      by (auto simp: list_all_iff)
  next
    fix p assume "p \<in> {p. node_of d p \<noteq> None \<and> \<not> isdir d p \<and> (\<exists>ns. ns \<noteq> [] \<and> set (butlast ns) \<inter> set pruned = {} \<and> p = root @ ns)}"
    then obtain ns where ns: "ns \<noteq> []" "set (butlast ns) \<inter> set pruned = {}" "p = root @ ns" "node_of d p \<noteq> None" "\<not> isdir d p"
      by auto
    have "p \<in> set (map fst (files d))" using m [OF ns(1)] ns(3,4) by simp
    with ns show "p \<in> set (walk_files d pruned root)"
      unfolding walk_files_def r option.case set_map set_filter
      by (intro image_eqI [of _ _ p]) (auto simp: strict_prefix_def list_all_iff)
  qed
qed

lemma any_newer_nodes:
  assumes "no_links d" "\<And>p. p \<in> set ps \<Longrightarrow> node_of d p \<noteq> None"
  shows "any_newer d t ps = Inr (\<exists>p \<in> set ps. t < mtime_of d p)"
  using assms getmtime_no_links by (intro any_newer_total) blast

lemma any_newer_walk:
  assumes "no_links d"
  shows "any_newer d t (walk_files d pruned root) = Inr (\<exists>p \<in> set (walk_files d pruned root). t < mtime_of d p)"
    and "any_newer d t (filter P (walk_files d pruned root)) = Inr (\<exists>p \<in> set (filter P (walk_files d pruned root)). t < mtime_of d p)"
  by (rule any_newer_nodes; auto simp: walk_files_no_links [OF assms] assms)+

lemma any_newer_in_dir:
  assumes "no_links d"
  shows "(if isdir d a then case listdir d a of Inl e \<Rightarrow> Inl e
        | Inr names \<Rightarrow> any_newer d t (map (\<lambda>f. a @ [f]) names) else Inr False) =
      Inr (isdir d a \<and> (\<exists>f. node_of d (a @ [f]) \<noteq> None \<and> t < mtime_of d (a @ [f])))"
proof (cases "isdir d a")
  case True
  then obtain r where r: "realpath d a = Some r" "listdir d a = Inr (children d r)" by (rule isdir_listdir)
  have e: "r = a" using r(1) assms by (simp add: no_links_def realpath_plain)
  have "any_newer d t (map (\<lambda>f. a @ [f]) (children d a)) = Inr (\<exists>p \<in> set (map (\<lambda>f. a @ [f]) (children d a)). t < mtime_of d p)"
    by (rule any_newer_nodes [OF assms]) (auto simp: mem_children)
  then show ?thesis using True unfolding r(2) e by (auto simp: mem_children Bex_def)
qed simp

text \<open>The five tests of needs_rebuild together ask for an input that is newer.\<close>

lemma newer_input_iff:
  assumes "no_links d" "wf_disk d" "is_real_ui_build (src_dir @ [''ui'']) d"
  shows "(\<exists>p \<in> build_inputs src_dir d. t < mtime_of d p) \<longleftrightarrow>
    (\<exists>p \<in> set (filter (isfile d) (map (\<lambda>f. src_dir @ [f]) check_files)). t < mtime_of d p) \<or>
    isdir d (src_dir @ [''ui'', ''build'', ''assets'']) \<and>
      (\<exists>f. node_of d (src_dir @ [''ui'', ''build'', ''assets'', f]) \<noteq> None \<and> t < mtime_of d (src_dir @ [''ui'', ''build'', ''assets'', f])) \<or>
    isdir d (src_dir @ [''ui'', ''src'']) \<and> (\<exists>p \<in> set (walk_files d [] (src_dir @ [''ui'', ''src''])). t < mtime_of d p) \<or>
    (\<exists>p \<in> set (filter (\<lambda>p. endswith (last p) ''.go'') (walk_files d [''ui''] src_dir)). t < mtime_of d p)"
proof -
  have "isdir d (src_dir @ [''ui'', ''build'', ''assets''])"
    using assms(3) by (simp add: is_real_ui_build_iff built_def)
  moreover have "isdir d (src_dir @ [''ui'', ''src''])"
    if "node_of d (src_dir @ [''ui'', ''src''] @ ns) \<noteq> None" "ns \<noteq> []" for ns
    using wf_ancestor [OF assms(2), of "src_dir @ [''ui'', ''src'']" ns] that
    by (simp add: isdir_def stat_no_links [OF assms(1)])
  then have "isdir d (src_dir @ [''ui'', ''src'']) \<and> (\<exists>p \<in> set (walk_files d [] (src_dir @ [''ui'', ''src''])). t < mtime_of d p) \<longleftrightarrow>
      (\<exists>p. (node_of d p \<noteq> None \<and> \<not> isdir d p \<and> (\<exists>ns. ns \<noteq> [] \<and> p = src_dir @ [''ui'', ''src''] @ ns)) \<and> t < mtime_of d p)"
    by (auto simp: walk_files_no_links [OF assms(1)])
  moreover have "(\<exists>p \<in> set (filter (\<lambda>p. endswith (last p) ''.go'') (walk_files d [''ui''] src_dir)). t < mtime_of d p) \<longleftrightarrow>
      (\<exists>p. (node_of d p \<noteq> None \<and> \<not> isdir d p \<and> endswith (last p) ''.go'' \<and>
        (\<exists>ns. ns \<noteq> [] \<and> ''ui'' \<notin> set (butlast ns) \<and> p = src_dir @ ns)) \<and> t < mtime_of d p)"
    by (auto simp: walk_files_no_links [OF assms(1)])
  ultimately show ?thesis
    unfolding build_inputs_def bex_Un Bex_def mem_Collect_eq by auto
qed

text \<open>C16: On a well-formed disk without links needs_rebuild never raises, and it answers
  no exactly when the binary is there, a client is built, and no input of the build is newer than
  the binary.\<close>

theorem needs_rebuild_correct:
  assumes "no_links d" "wf_disk d"
  shows "needs_rebuild src_dir out_bin d =
    Inr (\<not> (isfile d out_bin \<and> is_real_ui_build (src_dir @ [''ui'']) d \<and>
      (\<forall>p \<in> build_inputs src_dir d. mtime_of d p \<le> mtime_of d out_bin)))"
proof (cases "isfile d out_bin")
  case True
  then obtain t where t: "getmtime d out_bin = Inr t" using isfile_getmtime by blast
  let ?ui = "src_dir @ [''ui'']" and ?src = "src_dir @ [''ui'', ''src'']"
  let ?a = "src_dir @ [''ui'', ''build'', ''assets'']"
  let ?scripts = "filter (isfile d) (map (\<lambda>f. src_dir @ [f]) check_files)"
  let ?go = "filter (\<lambda>p. endswith (last p) ''.go'') (walk_files d [''ui''] src_dir)"
  let ?bs = "[\<exists>p \<in> set ?scripts. t < mtime_of d p, \<not> is_real_ui_build ?ui d,
       isdir d ?a \<and> (\<exists>f. node_of d (?a @ [f]) \<noteq> None \<and> t < mtime_of d (?a @ [f])),
       isdir d ?src \<and> (\<exists>p \<in> set (walk_files d [] ?src). t < mtime_of d p), \<exists>p \<in> set ?go. t < mtime_of d p]"
  have s: "any_newer d t ?scripts = Inr (\<exists>p \<in> set ?scripts. t < mtime_of d p)"
    by (rule any_newer_total) (auto intro: isfile_getmtime)
  note n = any_newer_in_dir [OF assms(1), of ?a t] any_newer_walk [OF assms(1)]
  have "needs_rebuild src_dir out_bin d = first_true
      [any_newer d t ?scripts, Inr (\<not> is_real_ui_build ?ui d),
       if isdir d ?a then case listdir d ?a of Inl e \<Rightarrow> Inl e
         | Inr names \<Rightarrow> any_newer d t (map (\<lambda>f. ?a @ [f]) names) else Inr False,
       if isdir d ?src then any_newer d t (walk_files d [] ?src) else Inr False, any_newer d t ?go]"
    using True unfolding needs_rebuild_def Let_def append.assoc append_Cons append_Nil t by simp
  also have "\<dots> = first_true (map Inr ?bs)" unfolding s n by simp
  also have "\<dots> = Inr (\<exists>b \<in> set ?bs. b)" by (rule first_true_total)
  also have "(\<exists>b \<in> set ?bs. b) \<longleftrightarrow> \<not> is_real_ui_build ?ui d \<or> (\<exists>p \<in> build_inputs src_dir d. t < mtime_of d p)"
    using newer_input_iff [OF assms, of src_dir t] by (cases "is_real_ui_build ?ui d") simp_all
  finally show ?thesis
    using True t by (auto simp: mtime_of_def [of d out_bin] not_le)
qed (simp add: needs_rebuild_def)

section \<open>The result of the search\<close>

lemma search_binary_result:
  assumes "search_binary h dirs d = (d', Some (At p))"
  shows "isfile d' p \<and> (\<exists>b \<in> set dirs. \<exists>name \<in> set (bin_names (on_windows h)). p = b @ [name])"
proof -
  let ?cands = "concat (map (\<lambda>b. map (\<lambda>name. b @ [name]) (bin_names (on_windows h))) dirs)"
  have f: "find (isfile d) ?cands = Some p"
    using assms by (auto simp: search_binary_def Let_def split: option.splits)
  then have p: "p \<in> set ?cands" "isfile d p" by (auto dest: find_Some_mem)
  have "d' = (if \<not> on_windows h \<and> \<not> x_ok d p then fst (chmod_exec p d) else d)"
    using assms f by (simp add: search_binary_def Let_def)
  then have "isfile d' p" using p(2) keepsD [OF file_kept.chmod_exec p(2)] by simp
  with p(1) show ?thesis by auto
qed

lemma compile_result:
  assumes "compile_go_binary h src_dir out_bin go_cmd d = (d', ups, True)"
  shows "isfile d' out_bin"
proof -
  obtain d1 where d1: "isfile d1 out_bin" "d' = (if on_windows h then d1 else fst (chmod_exec out_bin d1))"
    using assms by (auto simp: compile_go_binary_def Let_def split: prod.splits option.splits if_splits)
  then show ?thesis using keepsD [OF file_kept.chmod_exec d1(1)] by simp
qed

lemma rebuild_compiled:
  assumes "rebuild h src_dir out_bin d = (d', us, Inr True)"
  obtains d1 go_cmd vs where "compile_go_binary h src_dir out_bin go_cmd d1 = (d', vs, True)"
  using assms by (auto simp: rebuild_def Let_def split: prod.splits sum.splits option.splits)

text \<open>The ways find_or_build_binary can come to its result.\<close>

lemma find_or_build_cases [consumes 1]:
  assumes "find_or_build_binary h base cwd d = (d', Inr r)"
  obtains (searched) d1 where "search_binary h (search_dirs base cwd) d1 = (d', r)"
  | (compiled) src_dir us where "src_dir \<in> set (search_dirs base cwd)"
      "find (\<lambda>b. isfile d (b @ [''main.go''])) (search_dirs base cwd) = Some src_dir"
      "rebuild h src_dir (src_dir @ [hd (bin_names (on_windows h))]) d = (d', us, Inr True)"
      "r = Some (At (src_dir @ [hd (bin_names (on_windows h))]))"
proof -
  show thesis
  proof (cases "find (\<lambda>b. isfile d (b @ [''main.go''])) (search_dirs base cwd)")
    case None
    with assms that(1) show thesis by (auto simp: find_or_build_binary_def Let_def split: prod.splits)
  next
    case (Some src)
    then have "src \<in> set (search_dirs base cwd)" by (auto dest: find_Some_mem)
    with Some assms that show thesis
      by (auto simp: find_or_build_binary_def Let_def split: prod.splits sum.splits bool.splits option.splits if_splits)
  qed
qed

text \<open>A path that find_or_build_binary returns is a file at that moment, and it is one of
  the names of the server in one of the six search directories.\<close>

lemma find_or_build_binary_sound:
  assumes "find_or_build_binary h base cwd d = (d', Inr (Some (At p)))"
  shows "isfile d' p \<and> (\<exists>b \<in> set (search_dirs base cwd). \<exists>name \<in> set (bin_names (on_windows h)). p = b @ [name])"
  using assms
proof (cases rule: find_or_build_cases)
  case (searched d1)
  then show ?thesis by (rule search_binary_result)
next
  case (compiled src_dir us)
  obtain d1 go_cmd vs where
    "compile_go_binary h src_dir (src_dir @ [hd (bin_names (on_windows h))]) go_cmd d1 = (d', vs, True)"
    using compiled(3) by (rule rebuild_compiled)
  from compile_result [OF this] compiled show ?thesis by (auto simp: bin_names_def)
qed

section \<open>Progress of the compiler\<close>

lemma go_line_bounds: "48 \<le> pct \<Longrightarrow> pct \<le> 96 \<Longrightarrow> 48 \<le> fst (go_line pct line) \<and> fst (go_line pct line) \<le> 96"
  by (auto simp: go_line_def Let_def)

lemma go_updates_bounds:
  "48 \<le> pct \<Longrightarrow> pct \<le> 96 \<Longrightarrow> \<forall>u \<in> set (go_updates pct lines). 48 \<le> fst u \<and> fst u \<le> 96"
proof (induction lines arbitrary: pct)
  case (Cons line lines)
  have b: "48 \<le> fst (go_line pct line)" "fst (go_line pct line) \<le> 96"
    using go_line_bounds [OF Cons.prems, of line] by simp_all
  with Cons.IH [OF b] show ?case by simp
qed simp

text \<open>A line of each kind; the first is one of the compiler's package names.\<close>

definition pkg_line :: string where "pkg_line = ''github.com/a/b''"
definition download_line :: string where "download_line = ''go: downloading x v1''"

lemma sample_lines:
  "contains ''downloading'' (strip pkg_line) = False" "startswith (strip pkg_line) ''github.com/'' = True"
  "contains ''downloading'' (strip download_line) = True"
  by code_simp+

lemma go_line_samples:
  "fst (go_line pct pkg_line) = min 96 (pct + 1)" "fst (go_line pct download_line) = min 82 (pct + 1)"
  by (simp_all add: go_line_def sample_lines Let_def)

lemma go_updates_pkgs:
  "pct \<le> 96 \<Longrightarrow> map fst (go_updates pct (replicate n pkg_line @ rest)) =
    map (\<lambda>i. min 96 (pct + int i)) [1..<Suc n] @ map fst (go_updates (min 96 (pct + int n)) rest)"
proof (induction n arbitrary: pct)
  case (Suc n)
  have m: "map (\<lambda>i. min 96 (min 96 (pct + 1) + int i)) [1..<Suc n] =
      map (\<lambda>i. min 96 (pct + int i)) (map Suc [1..<Suc n])"
    by (rule nth_equalityI) (simp_all add: algebra_simps min_def)
  have u: "[1..<Suc (Suc n)] = 1 # map Suc [1..<Suc n]" by (simp add: map_Suc_upt upt_conv_Cons del: upt_Suc)
  have k: "min 96 (min 96 (pct + 1) + int n) = min 96 (pct + int (Suc n))" by (simp add: min_def)
  show ?case using Suc.IH [of "min 96 (pct + 1)"] unfolding u m k
    by (simp add: go_line_samples del: upt_Suc)
qed simp

text \<open>The percentages shown during a build stay between 45 and 96, but they do not only
  grow: packages raise it by one up to 96, and a download line after them sets a bar beyond 82
  back to 82.\<close>

lemma compile_progress:
  "(\<forall>u \<in> set (fst (snd (compile_go_binary h src_dir out_bin go_cmd d))). 45 \<le> fst u \<and> fst u \<le> 96) \<and>
    map fst (go_updates 48 (replicate n pkg_line @ [download_line])) =
      map (\<lambda>i. min 96 (48 + int i)) [1..<Suc n] @ [min 82 (49 + int n)]"
proof (intro conjI)
  show "\<forall>u \<in> set (fst (snd (compile_go_binary h src_dir out_bin go_cmd d))). 45 \<le> fst u \<and> fst u \<le> 96"
  proof -
    have "45 \<le> fst u \<and> fst u \<le> 96" if "u \<in> set ((45, c) # go_updates 48 ls)" for u c ls
      using that go_updates_bounds [of 48 ls] by auto
    then show ?thesis by (auto simp: compile_go_binary_def Let_def split: prod.split option.split)
  qed
  show "map fst (go_updates 48 (replicate n pkg_line @ [download_line])) =
      map (\<lambda>i. min 96 (48 + int i)) [1..<Suc n] @ [min 82 (49 + int n)]"
    by (simp add: go_updates_pkgs go_line_samples del: upt_Suc)
qed

text \<open>All percentages the bar shows in a rebuild lie between 5 and 96, so the bar never clamps one, and
  up to the start of the compiler they only grow and stay at 35 or less; during the compilation
  they are at least 45, and may fall back.\<close>

lemma rebuild_progress:
  "\<exists>us vs. fst (snd (rebuild h src_dir out_bin d)) = us @ vs \<and> sorted_wrt (<) (map fst us) \<and>
    (\<forall>u \<in> set us. 5 \<le> fst u \<and> fst u \<le> 35) \<and> (\<forall>v \<in> set vs. 45 \<le> fst v \<and> fst v \<le> 96) \<and>
    (vs \<noteq> [] \<longrightarrow> find_go h \<noteq> None) \<and>
    (\<forall>u \<in> set (us @ vs). current_step (fst (update_bar (fst u) tk (snd u) time b)) = fst u)"
proof -
  obtain d1 ws r where f: "build_frontend_ui (host_tools.truncate h) src_dir (find_deno h) d = (d1, ws, r)"
    by (cases "build_frontend_ui (host_tools.truncate h) src_dir (find_deno h) d")
  let ?us = "(5, ''Checking compilers...'') # ws"
  have us: "sorted_wrt (<) (map fst ?us) \<and> (\<forall>u \<in> set ?us. 5 \<le> fst u \<and> fst u \<le> 35)"
    using ui_updates [OF f] by (fastforce simp: rising_def)
  obtain vs where vs: "fst (snd (rebuild h src_dir out_bin d)) = ?us @ vs" "vs \<noteq> [] \<longrightarrow> find_go h \<noteq> None"
      "\<forall>v \<in> set vs. 45 \<le> fst v \<and> fst v \<le> 96"
  proof (cases "r")
    case (Inl e)
    then show thesis using that [of "[]"] by (simp add: rebuild_def Let_def f)
  next
    case (Inr c)
    show thesis
    proof (cases "find_go h")
      case None
      then show thesis using that [of "[]"] Inr by (simp add: rebuild_def Let_def f)
    next
      case (Some go)
      then show thesis
        using that [of "fst (snd (compile_go_binary h src_dir out_bin go d1))"] Inr
          compile_progress [of h src_dir out_bin go d1]
        by (auto simp: rebuild_def Let_def f split: prod.splits)
    qed
  qed
  have "current_step (fst (update_bar (fst u) tk (snd u) time b)) = fst u" if "u \<in> set (?us @ vs)" for u
    using that us vs(3) by (fastforce simp: update_bar_step)
  with us vs show ?thesis by (intro exI [of _ ?us] exI [of _ vs]) simp
qed

section \<open>A build that fails\<close>

text \<open>C38: compile_go_binary removes the old binary before it starts the compiler, so a build that
  fails without writing a file leaves no binary where a working one was.\<close>

theorem failed_build_loses_binary:
  assumes "isfile d out_bin" "lpath d out_bin = Some q" "q \<noteq> []" "\<not> isdir d out_bin" "link_of d q = None" "removable d q"
    and fails: "\<And>cmd env cwd d. fst (go_build h cmd env cwd d) = d"
    and "\<And>cmd env cwd d ls. snd (go_build h cmd env cwd d) \<noteq> Some (ls, 0)"
  shows "snd (snd (compile_go_binary h src_dir out_bin go_cmd d)) = False \<and>
    node_of d q \<noteq> None \<and> node_of (fst (compile_go_binary h src_dir out_bin go_cmd d)) q = None \<and>
    only_below q d (fst (compile_go_binary h src_dir out_bin go_cmd d))"
proof -
  let ?d = "fst (safely_remove_target (on_windows h) out_bin d)"
  have n: "node_of d q \<noteq> None"
    using assms(1) realpath_of_lpath [OF assms(2,5)] isfile_stat [OF assms(1)] by (simp add: stat_def)
  have j: "\<And>t. node_of d q \<noteq> Some (Link True t)" using assms(5) by (auto simp: link_of_def)
  have s: "?d = fst (remove_rest out_bin d)" using assms(4) by (simp add: safely_remove_target_cases)
  obtain r where r: "go_build h (build_cmd (on_windows h) go_cmd out_bin) (build_env (on_windows h) (os_environ h) go_cmd) src_dir ?d = (?d, r)"
    by (metis fails prod.collapse)
  then have "r \<noteq> Some (ls, 0)" for ls using assms(8) by (metis snd_conv)
  with r have "fst (compile_go_binary h src_dir out_bin go_cmd d) = ?d \<and> snd (snd (compile_go_binary h src_dir out_bin go_cmd d)) = False"
    by (auto simp: compile_go_binary_def Let_def split: option.split)
  then show ?thesis
    unfolding s using n remove_rest_done [OF assms(2,6,3) j] remove_rest_only_below [OF assms(2)] by simp
qed

definition failing_tools :: go_tools where
  "failing_tools = \<lparr>on_windows = False, has_junctions = False, which = (\<lambda>_. None), run_tool = (\<lambda>cmd cwd d. (d, None)),
     page_html = ''h'', page_script = ''s'', go_build = (\<lambda>cmd env cwd d. (d, Some ([], 1))),
     tool_isfile = (\<lambda>s. s = ''/usr/bin/go''), os_environ = Map.empty, home_dir = ''/root''\<rparr>"

definition server_disk :: disk where
  "server_disk = \<lparr>files = [([''app''], Directory 0), ([''app'', ''main.go''], Regular '''' 5 False),
     ([''app'', ''ui''], Directory 0), ([''app'', ''ScreenShare''], Regular ''elf'' 4 True)],
     may = (\<lambda>p. True), now = 6\<rparr>"

lemma server_disk_facts:
  "isfile server_disk [''app'', ''ScreenShare'']" "lpath server_disk [''app'', ''ScreenShare''] = Some [''app'', ''ScreenShare'']"
  "\<not> isdir server_disk [''app'', ''ScreenShare'']" "link_of server_disk [''app'', ''ScreenShare''] = None"
  "removable server_disk [''app'', ''ScreenShare'']"
  by code_simp+

theorem failed_build_loses_binary_witness:
  "node_of server_disk [''app'', ''ScreenShare''] \<noteq> None \<and>
    node_of (fst (compile_go_binary failing_tools [''app''] [''app'', ''ScreenShare''] ''/usr/bin/go'' server_disk))
      [''app'', ''ScreenShare''] = None"
proof -
  have "fst (go_build failing_tools cmd env cwd d) = d" "snd (go_build failing_tools cmd env cwd d) \<noteq> Some (ls, 0)"
    for cmd env cwd d ls by (simp_all add: failing_tools_def)
  from failed_build_loses_binary [OF server_disk_facts(1,2) _ server_disk_facts(3,4,5) this] show ?thesis by simp
qed

text \<open>With such a compiler the host that ran before finds no server any more; without any
  compiler it would have gone on with the old binary.\<close>

lemma failing_build_no_server:
  "snd (find_or_build_binary failing_tools [''app''] [''app''] server_disk) = Inr None"
  "snd (find_or_build_binary (failing_tools\<lparr>tool_isfile := \<lambda>_. False\<rparr>) [''app''] [''app''] server_disk) =
    Inr (Some (At [''app'', ''ScreenShare'']))"
  by code_simp+

theorem needs_rebuild_correct_witness:
  "needs_rebuild [''app''] [''app'', ''ScreenShare''] server_disk = Inr True"
proof -
  have "no_links server_disk" by (auto simp: no_links_def link_of_def node_of_def server_disk_def)
  moreover have "wf_disk server_disk" by (simp add: wf_disk_def server_disk_def node_of_def)
  moreover have "\<not> is_real_ui_build ([''app''] @ [''ui'']) server_disk" by code_simp
  ultimately show ?thesis using needs_rebuild_correct [of server_disk "[''app'']" "[''app'', ''ScreenShare'']"] by simp
qed

end
