(* ===== verification/Process_Util.thy ===== *)
theory Process_Util
  imports Go_Builder
begin

text \<open>
  process_util.py: the lines of a child that go to the log, the start of the Go server, and the
  wait for its health check. The clock, the state of the child and the answers to the requests
  are functions of the number of the loop pass.
\<close>

section \<open>Logging the output of a child\<close>

text \<open>What readline gives: a line, with the empty one at the end of the stream, or an exception.\<close>

datatype read_event = Line string | Broken

fun read_stream :: "string \<Rightarrow> string \<Rightarrow> read_event list \<Rightarrow> string list" where
  "read_stream prefix_label stream_name [] = []"
| "read_stream prefix_label stream_name (Broken # es) = []"
| "read_stream prefix_label stream_name (Line line # es) =
     (if line = '''' then []
      else (''['' @ prefix_label @ '' '' @ stream_name @ ''] '' @ strip line) # read_stream prefix_label stream_name es)"

text \<open>The two streams are read by two threads; a stream that is not there is not read.\<close>

definition stream_process_logs :: "string \<Rightarrow> read_event list option \<Rightarrow> read_event list option \<Rightarrow> string list list" where
  "stream_process_logs prefix_label out err =
     (case out of Some es \<Rightarrow> [read_stream prefix_label ''stdout'' es] | None \<Rightarrow> []) @
     (case err of Some es \<Rightarrow> [read_stream prefix_label ''stderr'' es] | None \<Rightarrow> [])"

section \<open>Starting the server\<close>

datatype start_error = SystemExit int | Raised py_error

record server_call =
  argv :: "string list"
  call_env :: env
  call_cwd :: string

definition server_configs :: "string \<Rightarrow> (string \<times> string) list" where
  "server_configs lan_ip =
     [(''EXTERNAL_IP'', lan_ip), (''SERVER_ADDRESS'', ''0.0.0.0:5050''), (''TURN_ADDRESS'', ''0.0.0.0:3478''),
      (''AUTH_MODE'', ''none''), (''CLOSE_ROOM_WHEN_OWNER_LEAVES'', ''false''), (''LOG_LEVEL'', ''info'')]"

definition server_env :: "env \<Rightarrow> string \<Rightarrow> env" where
  "server_env env lan_ip = fold (\<lambda>(k, v) e. e(''SCREENSHARE_'' @ k \<mapsto> v)) (server_configs lan_ip) env"

definition bin_text :: "go_tools \<Rightarrow> server_bin \<Rightarrow> string" where
  "bin_text h b = (case b of At p \<Rightarrow> path_str (on_windows h) p | Named s \<Rightarrow> s)"

definition bin_isfile :: "go_tools \<Rightarrow> disk \<Rightarrow> server_bin \<Rightarrow> bool" where
  "bin_isfile h d b = (case b of At p \<Rightarrow> isfile d p | Named s \<Rightarrow> tool_isfile h s)"

definition bin_dir :: "go_tools \<Rightarrow> server_bin \<Rightarrow> string" where
  "bin_dir h b = (case b of At p \<Rightarrow> path_str (on_windows h) (butlast p) | Named s \<Rightarrow> os_dirname (on_windows h) s)"

text \<open>The candidates for the file of users, each with whether it is a file.\<close>

definition users_candidates :: "go_tools \<Rightarrow> path \<Rightarrow> path \<Rightarrow> server_bin \<Rightarrow> disk \<Rightarrow> (bool \<times> string) list" where
  "users_candidates h base cwd b d =
     (let tested = (\<lambda>p. (isfile d p, path_str (on_windows h) p))
      in [case b of At p \<Rightarrow> tested (butlast p @ [''users''])
          | Named s \<Rightarrow> (let u = os_join (on_windows h) (bin_dir h b) [''users''] in (tool_isfile h u, u)),
          tested (base @ [''users'']), tested (base @ [''server'', ''users'']),
          tested (cwd @ [''users'']), tested (cwd @ [''server'', ''users''])])"

definition users_env :: "(bool \<times> string) list \<Rightarrow> env \<Rightarrow> env" where
  "users_env cands env =
     (case find fst cands of Some (_, u) \<Rightarrow> env(''SCREENSHARE_USERS_FILE'' \<mapsto> u) | None \<Rightarrow> env)"

definition start_screenshare_server ::
  "go_tools \<Rightarrow> path \<Rightarrow> path \<Rightarrow> (server_call \<Rightarrow> bool) \<Rightarrow> string \<Rightarrow> disk \<Rightarrow> disk \<times> (start_error + server_call)" where
  "start_screenshare_server h base cwd popen_raises lan_ip d =
     (case find_or_build_binary h base cwd d of
        (d, Inl e) \<Rightarrow> (d, Inl (Raised e))
      | (d, Inr None) \<Rightarrow> (d, Inl (SystemExit 1))
      | (d, Inr (Some b)) \<Rightarrow>
          if \<not> bin_isfile h d b then (d, Inl (SystemExit 1))
          else let env = users_env (users_candidates h base cwd b d) (server_env (os_environ h) lan_ip);
                   call = \<lparr>argv = [bin_text h b, ''serve''], call_env = env, call_cwd = bin_dir h b\<rparr>
               in if popen_raises call then (d, Inl (Raised OSError)) else (d, Inr call))"

section \<open>Waiting for the server\<close>

datatype probe = Status int | ProbeError

text \<open>
  clock 0 is the start time and clock (i + 1) the time at the test before pass i, in
  microseconds; exited i is the answer of poll in pass i, None while the child runs.
\<close>

partial_function (option) wait_loop ::
  "(nat \<Rightarrow> int) \<Rightarrow> (nat \<Rightarrow> int option) \<Rightarrow> (nat \<Rightarrow> probe) \<Rightarrow> int \<Rightarrow> nat \<Rightarrow> bool option" where
  "wait_loop clock exited answer timeout i =
     (if clock (Suc i) - clock 0 < timeout then
        (if exited i \<noteq> None then Some False
         else case answer i of
             Status s \<Rightarrow> if s = 200 \<or> s = 302 \<or> s = 304 then Some True
               else wait_loop clock exited answer timeout (Suc i)
           | ProbeError \<Rightarrow> wait_loop clock exited answer timeout (Suc i))
      else Some False)"

definition wait_for_server ::
  "(nat \<Rightarrow> int) \<Rightarrow> (nat \<Rightarrow> int option) \<Rightarrow> (nat \<Rightarrow> probe) \<Rightarrow> int \<Rightarrow> bool option" where
  "wait_for_server clock exited answer timeout = wait_loop clock exited answer timeout 0"

section \<open>The wait ends, and what its answer means\<close>

definition healthy :: "probe \<Rightarrow> bool" where
  "healthy r \<longleftrightarrow> r = Status 200 \<or> r = Status 302 \<or> r = Status 304"

lemma wait_loop_step:
  "wait_loop clock exited answer timeout i =
    (if clock (Suc i) - clock 0 < timeout \<and> exited i = None \<and> \<not> healthy (answer i)
     then wait_loop clock exited answer timeout (Suc i)
     else Some (clock (Suc i) - clock 0 < timeout \<and> exited i = None))"
  by (subst wait_loop.simps) (auto simp: healthy_def split: probe.split)

definition goes_on :: "(nat \<Rightarrow> int) \<Rightarrow> (nat \<Rightarrow> int option) \<Rightarrow> (nat \<Rightarrow> probe) \<Rightarrow> int \<Rightarrow> nat \<Rightarrow> bool" where
  "goes_on clock exited answer timeout i \<longleftrightarrow>
     clock (Suc i) - clock 0 < timeout \<and> exited i = None \<and> \<not> healthy (answer i)"

text \<open>The first pass that does not go on decides.\<close>

lemma wait_loop_decided:
  "(\<And>j. i \<le> j \<Longrightarrow> j < i + k \<Longrightarrow> goes_on clock exited answer timeout j) \<Longrightarrow>
    \<not> goes_on clock exited answer timeout (i + k) \<Longrightarrow>
    wait_loop clock exited answer timeout i = Some (clock (Suc (i + k)) - clock 0 < timeout \<and> exited (i + k) = None)"
proof (induction k arbitrary: i)
  case 0
  then show ?case using wait_loop_step [of clock exited answer timeout i] by (auto simp: goes_on_def)
next
  case (Suc k)
  have "goes_on clock exited answer timeout i" by (rule Suc.prems) simp_all
  then have "wait_loop clock exited answer timeout i = wait_loop clock exited answer timeout (Suc i)"
    using wait_loop_step [of clock exited answer timeout i] by (simp add: goes_on_def)
  also have "\<dots> = Some (clock (Suc (Suc i + k)) - clock 0 < timeout \<and> exited (Suc i + k) = None)"
    by (rule Suc.IH) (use Suc.prems in \<open>simp_all add: goes_on_def\<close>)
  finally show ?case by simp
qed

lemma wait_decided:
  assumes "\<not> goes_on clock exited answer timeout n"
  obtains k where "k \<le> n" "\<forall>j < k. goes_on clock exited answer timeout j"
    "\<not> goes_on clock exited answer timeout k"
    "wait_for_server clock exited answer timeout = Some (clock (Suc k) - clock 0 < timeout \<and> exited k = None)"
proof -
  obtain k where k: "k \<le> n" "\<forall>j < k. goes_on clock exited answer timeout j"
      "\<not> goes_on clock exited answer timeout k"
    using ex_least_nat_le [of "\<lambda>k. \<not> goes_on clock exited answer timeout k" n] assms by blast
  have "wait_loop clock exited answer timeout 0 = Some (clock (Suc (0 + k)) - clock 0 < timeout \<and> exited (0 + k) = None)"
    by (rule wait_loop_decided) (use k in \<open>simp_all only: add_0 not_False_eq_True simp_thms\<close>)
  then have "wait_for_server clock exited answer timeout = Some (clock (Suc k) - clock 0 < timeout \<and> exited k = None)"
    unfolding wait_for_server_def add_0 .
  with k show thesis by (rule that)
qed

lemma clock_advances:
  assumes "\<And>j. clock j \<le> clock (Suc j)"
    and "\<And>j. answer j = ProbeError \<Longrightarrow> clock (Suc j) + 200000 \<le> clock (Suc (Suc j))"
    and "\<And>j. j < n \<Longrightarrow> answer j = ProbeError"
  shows "clock 0 + 200000 * int n \<le> clock (Suc n)"
  using assms(3)
proof (induction n)
  case (Suc n)
  then have "clock 0 + 200000 * int n \<le> clock (Suc n)" by simp
  moreover have "clock (Suc n) + 200000 \<le> clock (Suc (Suc n))" using assms(2) Suc.prems by simp
  ultimately show ?case by simp
qed (use assms(1) [of 0] in simp)

text \<open>C17: wait_for_server ends when time passes: the first pass after the time, of an exit of the
  server or of a healthy answer decides, and the result is whether it was the last of these in time
  and with the server running. A failed request is followed by a sleep of 0.2 seconds, so when
  all requests fail or succeed it ends without more of the clock than that it does not go back,
  and after failed requests alone it decides by pass 30.\<close>

theorem wait_for_server_returns:
  assumes mono: "\<And>j. clock j \<le> clock (Suc j)"
    and sleep: "\<And>j. answer j = ProbeError \<Longrightarrow> clock (Suc j) + 200000 \<le> clock (Suc (Suc j))"
    and "(\<forall>j. answer j = ProbeError \<or> healthy (answer j)) \<or> (\<exists>n. 6000000 \<le> clock (Suc n) - clock 0)"
  shows "\<exists>k. wait_for_server clock exited answer 6000000 =
      Some (clock (Suc k) - clock 0 < 6000000 \<and> exited k = None \<and> healthy (answer k)) \<and>
    (\<forall>j < k. clock (Suc j) - clock 0 < 6000000 \<and> exited j = None \<and> \<not> healthy (answer j)) \<and>
    ((\<forall>j < k. answer j = ProbeError) \<longrightarrow> k \<le> 30)"
proof -
  have errors: "n \<le> 30" if "\<And>j. j < n \<Longrightarrow> goes_on clock exited answer 6000000 j" "\<And>j. j < n \<Longrightarrow> answer j = ProbeError" for n
  proof (rule ccontr)
    assume n: "\<not> n \<le> 30"
    then have "clock 0 + 200000 * int 30 \<le> clock (Suc 30)" 
      using clock_advances [of clock answer 30, OF mono sleep that(2)] by simp
    moreover have "goes_on clock exited answer 6000000 30" using that(1) n by simp
    ultimately show False by (simp add: goes_on_def)
  qed
  have "\<exists>n. \<not> goes_on clock exited answer 6000000 n"
  proof (rule ccontr)
    assume "\<nexists>n. \<not> goes_on clock exited answer 6000000 n"
    then have g: "goes_on clock exited answer 6000000 n" for n by blast
    then have "clock (Suc n) - clock 0 < 6000000" "\<not> healthy (answer n)" for n by (simp_all add: goes_on_def)
    with assms(3) have "answer n = ProbeError" for n by (meson not_less)
    with g errors [of 31] show False by simp
  qed
  then obtain n where "\<not> goes_on clock exited answer 6000000 n" by blast
  then obtain k where k: "\<forall>j < k. goes_on clock exited answer 6000000 j" "\<not> goes_on clock exited answer 6000000 k"
      "wait_for_server clock exited answer 6000000 = Some (clock (Suc k) - clock 0 < 6000000 \<and> exited k = None)"
    by (rule wait_decided)
  have "(clock (Suc k) - clock 0 < 6000000 \<and> exited k = None) =
      (clock (Suc k) - clock 0 < 6000000 \<and> exited k = None \<and> healthy (answer k))"
    using k(2) by (auto simp: goes_on_def)
  with k(1,3) errors [of k] show ?thesis by (intro exI [of _ k]) (auto simp: goes_on_def)
qed

text \<open>A server that answers from its third pass on, with a status that is not taken as an answer.\<close>

theorem wait_for_server_returns_witness:
  "wait_for_server (\<lambda>i. 300000 * int i) (\<lambda>_. None) (\<lambda>i. if i < 2 then ProbeError else Status 204) 6000000 \<noteq> None"
proof -
  have "\<exists>n. 6000000 \<le> 300000 * int (Suc n) - 300000 * int 0" by (intro exI [of _ 20]) simp
  then show ?thesis
    using wait_for_server_returns [of "\<lambda>i. 300000 * int i" "\<lambda>i. if i < 2 then ProbeError else Status 204" "\<lambda>_. None"]
    by auto
qed

section \<open>What the server is started with\<close>

definition screenshare_keys :: "string list" where
  "screenshare_keys = map (\<lambda>(k, v). ''SCREENSHARE_'' @ k) (server_configs [])"

lemma server_env_at:
  "server_env env lan_ip k =
    (case map_of (map (\<lambda>(k, v). (''SCREENSHARE_'' @ k, v)) (server_configs lan_ip)) k of Some v \<Rightarrow> Some v | None \<Rightarrow> env k)"
  by (simp add: server_env_def server_configs_def)

lemma users_env_at:
  "users_env cands env k =
    (if k = ''SCREENSHARE_USERS_FILE'' \<and> find fst cands \<noteq> None then Some (snd (the (find fst cands))) else env k)"
  by (auto simp: users_env_def split: option.split)

lemma start_server_cases:
  assumes "start_screenshare_server h base cwd popen_raises lan_ip d = (d', Inr call)"
  obtains b where "find_or_build_binary h base cwd d = (d', Inr (Some b))" "bin_isfile h d' b"
    "call = \<lparr>argv = [bin_text h b, ''serve''],
       call_env = users_env (users_candidates h base cwd b d') (server_env (os_environ h) lan_ip), call_cwd = bin_dir h b\<rparr>"
    "\<not> popen_raises call"
  using assms unfolding start_screenshare_server_def Let_def
  by (auto split: prod.splits sum.splits option.splits if_splits)

text \<open>The server is started as a file that is there, with the argument serve, in an
  environment that carries the address of the host and the five fixed settings, the first file of
  users that exists, and everything else as the host got it.\<close>

lemma start_server_correct:
  assumes "start_screenshare_server h base cwd popen_raises lan_ip d = (d', Inr call)"
  shows "\<exists>b. bin_isfile h d' b \<and> argv call = [bin_text h b, ''serve''] \<and> call_cwd call = bin_dir h b \<and>
    call_env call ''SCREENSHARE_EXTERNAL_IP'' = Some lan_ip \<and>
    call_env call ''SCREENSHARE_SERVER_ADDRESS'' = Some ''0.0.0.0:5050'' \<and>
    call_env call ''SCREENSHARE_TURN_ADDRESS'' = Some ''0.0.0.0:3478'' \<and>
    call_env call ''SCREENSHARE_AUTH_MODE'' = Some ''none'' \<and>
    call_env call ''SCREENSHARE_CLOSE_ROOM_WHEN_OWNER_LEAVES'' = Some ''false'' \<and>
    call_env call ''SCREENSHARE_LOG_LEVEL'' = Some ''info'' \<and>
    call_env call ''SCREENSHARE_USERS_FILE'' =
      (case find fst (users_candidates h base cwd b d') of Some (_, u) \<Rightarrow> Some u | None \<Rightarrow> os_environ h ''SCREENSHARE_USERS_FILE'') \<and>
    (\<forall>k. k \<notin> set screenshare_keys \<and> k \<noteq> ''SCREENSHARE_USERS_FILE'' \<longrightarrow> call_env call k = os_environ h k)"
proof -
  obtain b where b: "bin_isfile h d' b"
    "call = \<lparr>argv = [bin_text h b, ''serve''],
       call_env = users_env (users_candidates h base cwd b d') (server_env (os_environ h) lan_ip), call_cwd = bin_dir h b\<rparr>"
    using assms by (rule start_server_cases)
  have "server_env (os_environ h) lan_ip k = os_environ h k" if "k \<notin> set screenshare_keys" for k
    using that by (auto simp: server_env_at screenshare_keys_def server_configs_def)
  then show ?thesis
    using b by (intro exI [of _ b])
      (auto simp: users_env_at server_env_at server_configs_def split: option.split)
qed

lemma sample_server:
  "\<exists>d call. start_screenshare_server (failing_tools\<lparr>tool_isfile := \<lambda>_. False\<rparr>) [''app''] [''app''] (\<lambda>_. False) ip server_disk = (d, Inr call)"
proof -
  let ?r = "find_or_build_binary (failing_tools\<lparr>tool_isfile := \<lambda>_. False\<rparr>) [''app''] [''app''] server_disk"
  have r: "?r = (fst ?r, Inr (Some (At [''app'', ''ScreenShare''])))"
    by (metis failing_build_no_server(2) prod.collapse)
  have b: "bin_isfile (failing_tools\<lparr>tool_isfile := \<lambda>_. False\<rparr>) (fst ?r) (At [''app'', ''ScreenShare''])"
    by code_simp
  show ?thesis
    unfolding start_screenshare_server_def
    by (subst r) (simp only: prod.case sum.case option.case b not_True_eq_False if_False Let_def, simp)
qed

end
