(* ===== verification/Browser_Launcher.thy ===== *)
theory Browser_Launcher
  imports Go_Builder
begin

text \<open>
  browser_launcher.py: the search for a browser and the command that opens the room. What the
  machine holds is given by functions on the texts of paths; flatpak info is a program, whose
  return code is an argument, None for an exception.
\<close>

section \<open>The search\<close>

record browser_host =
  b_platform :: string
  b_home :: string
  b_environ :: env
  which_in :: "string \<Rightarrow> string \<Rightarrow> string option"
  is_file :: "string \<Rightarrow> bool"
  is_exec :: "string \<Rightarrow> bool"
  is_dir :: "string \<Rightarrow> bool"
  flatpak_info :: "string list \<Rightarrow> env \<Rightarrow> int option"

definition b_clean_env :: "browser_host \<Rightarrow> env" where
  "b_clean_env h = get_clean_host_env (b_platform h) (b_home h) (b_environ h)"

definition win_candidates :: "browser_host \<Rightarrow> string option list" where
  "win_candidates h =
     (let env = b_environ h;
          which = (\<lambda>name. which_in h name (env_get env ''PATH''));
          x86 = os_join True (env_or env ''ProgramFiles(x86)'' (win_path [''C:'', ''Program Files (x86)'']));
          pf = os_join True (env_or env ''ProgramFiles'' (win_path [''C:'', ''Program Files'']));
          local = os_join True (env_or env ''LocalAppData'' '''');
          edge = [''Microsoft'', ''Edge'', ''Application'', ''msedge.exe''];
          chrome = [''Google'', ''Chrome'', ''Application'', ''chrome.exe'']
      in [which ''msedge'', which ''chrome'', which ''brave'', Some (x86 edge), Some (pf edge), Some (local edge),
          Some (pf chrome), Some (x86 chrome), Some (local chrome),
          Some (pf [''BraveSoftware'', ''Brave-Browser'', ''Application'', ''brave.exe''])])"

definition search_binaries :: "string list" where
  "search_binaries =
    [''microsoft-edge-stable'', ''microsoft-edge'', ''msedge'', ''com.microsoft.Edge'',
     ''google-chrome-stable'', ''google-chrome'', ''chrome'', ''com.google.Chrome'',
     ''chromium'', ''chromium-browser'', ''org.chromium.Chromium'', ''brave-browser'',
     ''brave'', ''com.brave.Browser'', ''vivaldi'', ''vivaldi-stable'',
     ''microsoft-edge-beta'', ''microsoft-edge-dev'', ''google-chrome-beta'', ''google-chrome-unstable'']"

definition explicit_dirs :: "string \<Rightarrow> string list" where
  "explicit_dirs home =
    [''/usr/bin'', ''/usr/local/bin'', ''/bin'', ''/snap/bin'', ''/var/lib/flatpak/exports/bin'',
     expanduser home ''~/.local/share/flatpak/exports/bin'', expanduser home ''~/.local/bin'', expanduser home ''~/bin'',
     ''/opt/microsoft/msedge'', ''/opt/microsoft/msedge-beta'', ''/opt/microsoft/msedge-dev'',
     ''/opt/google/chrome'', ''/opt/brave.com/brave'', ''/app/bin'']"

definition usable :: "browser_host \<Rightarrow> string \<Rightarrow> bool" where
  "usable h p \<longleftrightarrow> is_file h p \<and> is_exec h p"

definition find_binary :: "browser_host \<Rightarrow> string \<Rightarrow> string option" where
  "find_binary h binary =
     (let path = which_in h binary (env_get (b_clean_env h) ''PATH'')
      in if nonempty path \<and> usable h (the path) then path
         else find (usable h) (map (\<lambda>d. os_join False d [binary]) (explicit_dirs (b_home h))))"

fun first_some :: "('a \<Rightarrow> 'b option) \<Rightarrow> 'a list \<Rightarrow> 'b option" where
  "first_some f [] = None"
| "first_some f (x # xs) = (case f x of Some y \<Rightarrow> Some y | None \<Rightarrow> first_some f xs)"

definition find_flatpak :: "browser_host \<Rightarrow> string option" where
  "find_flatpak h =
     (case find (\<lambda>f. nonempty f \<and> usable h (the f))
         [which_in h ''flatpak'' (env_get (b_clean_env h) ''PATH''),
          Some ''/usr/bin/flatpak'', Some ''/usr/local/bin/flatpak'', Some ''/var/lib/flatpak''] of
        Some f \<Rightarrow> f | None \<Rightarrow> None)"

definition app_ids :: "string list" where
  "app_ids =
    [''com.microsoft.Edge'', ''com.microsoft.Edge.Dev'', ''com.microsoft.Edge.Beta'',
     ''com.google.Chrome'', ''com.google.Chrome.Dev'', ''com.google.Chrome.Beta'',
     ''org.chromium.Chromium'', ''com.brave.Browser'']"

fun find_app :: "browser_host \<Rightarrow> string \<Rightarrow> string list \<Rightarrow> py_error + string list option" where
  "find_app h flatpak_bin [] = Inr None"
| "find_app h flatpak_bin (app_id # ids) =
     (case flatpak_info h [flatpak_bin, ''info'', app_id] (b_clean_env h) of
        None \<Rightarrow> Inl OSError
      | Some returncode \<Rightarrow>
          if returncode = 0 \<or> is_dir h (os_join False ''/var/lib/flatpak/app'' [app_id]) \<or>
             is_dir h (expanduser (b_home h) (''~/.local/share/flatpak/app/'' @ app_id))
          then Inr (Some [flatpak_bin, ''run'', app_id])
          else find_app h flatpak_bin ids)"

definition find_browser_executable :: "browser_host \<Rightarrow> py_error + string list option" where
  "find_browser_executable h =
     (if startswith (b_platform h) ''win'' then
        Inr (case find (\<lambda>p. nonempty p \<and> is_file h (the p)) (win_candidates h) of
            Some p \<Rightarrow> Some [the p] | None \<Rightarrow> None)
      else case first_some (find_binary h) search_binaries of
          Some p \<Rightarrow> Inr (Some [p])
        | None \<Rightarrow>
            (case find_flatpak h of
               Some flatpak_bin \<Rightarrow> find_app h flatpak_bin app_ids
             | None \<Rightarrow> Inr None))"

section \<open>The command\<close>

definition win_flags :: "string list" where
  "win_flags =
    [''--use-fake-ui-for-media-stream'', ''--allow-http-screen-capture'', ''--enable-usermedia-screen-capturing'',
     ''--auto-select-desktop-capture-source=Entire screen'', ''--autoplay-policy=no-user-gesture-required'',
     ''--enable-features=WebRTCPipeWireCapturer,WasapiRawAudioCapture'',
     ''--no-first-run'', ''--no-default-browser-check'', ''--disable-background-networking'', ''--disable-sync'',
     ''--disable-breakpad'', ''--disable-component-update'', ''--window-size=1280,720'']"

definition linux_flags :: "string list" where
  "linux_flags =
    [''--test-type'', ''--no-sandbox'', ''--disable-dev-shm-usage'', ''--disable-vulkan'', ''--ozone-platform-hint=auto'',
     ''--enable-features=WebRTCPipeWireCapturer,VaapiVideoEncoder,VaapiVideoDecoder,CanvasOopRasterization'',
     ''--disable-features=AudioServiceOutOfProcess,AudioServiceSandbox,IsolateOrigins,site-per-process,Vulkan'',
     ''--use-fake-ui-for-media-stream'', ''--allow-http-screen-capture'', ''--enable-usermedia-screen-capturing'',
     ''--auto-select-desktop-capture-source=Entire screen'', ''--autoplay-policy=no-user-gesture-required'',
     ''--no-first-run'', ''--no-default-browser-check'', ''--disable-background-networking'', ''--disable-sync'',
     ''--disable-breakpad'', ''--disable-component-update'', ''--window-size=1280,720'']"

definition browser_cmd :: "bool \<Rightarrow> string list \<Rightarrow> string \<Rightarrow> string \<Rightarrow> string list" where
  "browser_cmd is_win executable_cmd url profile_dir =
     executable_cmd @ [''--app='' @ url, ''--user-data-dir='' @ profile_dir] @
     (if is_win then win_flags else linux_flags)"

text \<open>
  The directory for temporary files, whether the profile directory cannot be made, and whether
  the start raises; the result is the command with its environment, None where no browser runs.
\<close>

definition launch_hidden_browser ::
  "browser_host \<Rightarrow> string \<Rightarrow> bool \<Rightarrow> (string list \<Rightarrow> bool) \<Rightarrow> string \<Rightarrow> py_error + (string list \<times> env) option" where
  "launch_hidden_browser h tempdir makedirs_raises popen_raises url =
     (case find_browser_executable h of
        Inl e \<Rightarrow> Inl e
      | Inr None \<Rightarrow> Inr None
      | Inr (Some executable_cmd) \<Rightarrow>
          if makedirs_raises then Inl OSError
          else let is_win = startswith (b_platform h) ''win'';
                   cmd = browser_cmd is_win executable_cmd url (os_join is_win tempdir [''ScreenShare_browser_profile''])
               in if popen_raises cmd then Inr None else Inr (Some (cmd, b_clean_env h)))"

section \<open>Which browser is found\<close>

text \<open>All places in the order in which they are looked at.\<close>

definition browser_places :: "browser_host \<Rightarrow> string list" where
  "browser_places h =
     concat (map (\<lambda>binary.
       (case which_in h binary (env_get (b_clean_env h) ''PATH'') of Some p \<Rightarrow> if p = [] then [] else [p] | None \<Rightarrow> []) @
       map (\<lambda>d. os_join False d [binary]) (explicit_dirs (b_home h))) search_binaries)"

lemma find_append: "find P (xs @ ys) = (case find P xs of Some x \<Rightarrow> Some x | None \<Rightarrow> find P ys)"
  by (induction xs) auto

lemma find_binary_flat:
  "find_binary h binary = find (usable h)
    ((case which_in h binary (env_get (b_clean_env h) ''PATH'') of Some p \<Rightarrow> if p = [] then [] else [p] | None \<Rightarrow> []) @
     map (\<lambda>d. os_join False d [binary]) (explicit_dirs (b_home h)))"
  by (auto simp: find_binary_def Let_def nonempty_def find_append split: option.split)

lemma first_some_flat: "(\<And>x. f x = find P (g x)) \<Longrightarrow> first_some f xs = find P (concat (map g xs))"
  by (induction xs) (simp_all add: find_append split: option.split)

lemma search_flat: "first_some (find_binary h) search_binaries = find (usable h) (browser_places h)"
  unfolding browser_places_def by (rule first_some_flat) (rule find_binary_flat)

lemma find_app_shape: "find_app h fp ids = Inr (Some c) \<Longrightarrow> \<exists>i \<in> set ids. c = [fp, ''run'', i]"
  by (induction ids) (auto split: option.splits if_splits)

lemma find_flatpak_usable: "find_flatpak h = Some fp \<Longrightarrow> usable h fp"
proof -
  assume "find_flatpak h = Some fp"
  then have "find (\<lambda>f. nonempty f \<and> usable h (the f))
      [which_in h ''flatpak'' (env_get (b_clean_env h) ''PATH''),
       Some ''/usr/bin/flatpak'', Some ''/usr/local/bin/flatpak'', Some ''/var/lib/flatpak''] = Some (Some fp)"
    unfolding find_flatpak_def by (auto split: option.splits simp del: find.simps)
  from find_Some_mem [OF this] show "usable h fp" by simp
qed

text \<open>C39: Outside Windows the nested search returns the first usable file among all places in
  their order, by the name of the browser first and then by the directory, and turns to Flatpak
  exactly when there is none; the program it returns is always an executable file.\<close>

theorem find_browser_linux:
  assumes "\<not> startswith (b_platform h) ''win''"
  shows "find_browser_executable h =
      (case find (usable h) (browser_places h) of
         Some p \<Rightarrow> Inr (Some [p])
       | None \<Rightarrow> (case find_flatpak h of Some fp \<Rightarrow> find_app h fp app_ids | None \<Rightarrow> Inr None)) \<and>
    (case find_browser_executable h of
       Inr (Some c) \<Rightarrow> usable h (hd c) \<and> (tl c = [] \<or> (\<exists>i \<in> set app_ids. tl c = [''run'', i]))
     | _ \<Rightarrow> find (usable h) (browser_places h) = None)"
proof -
  have e: "find_browser_executable h =
      (case find (usable h) (browser_places h) of
         Some p \<Rightarrow> Inr (Some [p])
       | None \<Rightarrow> (case find_flatpak h of Some fp \<Rightarrow> find_app h fp app_ids | None \<Rightarrow> Inr None))"
    using assms by (simp add: find_browser_executable_def search_flat)
  have found: "usable h (hd c) \<and> (tl c = [] \<or> (\<exists>i \<in> set app_ids. tl c = [''run'', i]))"
    if "find_browser_executable h = Inr (Some c)" for c
  proof (cases "find (usable h) (browser_places h)")
    case None
    with that e obtain fp where "find_flatpak h = Some fp" "find_app h fp app_ids = Inr (Some c)"
      by (auto split: option.splits)
    with find_app_shape find_flatpak_usable show ?thesis by fastforce
  next
    case (Some p)
    with that e have "c = [p]" by simp
    with find_Some_mem [OF Some] show ?thesis by simp
  qed
  have none: "find (usable h) (browser_places h) = None"
    if "\<nexists>c. find_browser_executable h = Inr (Some c)"
    using that e by (cases "find (usable h) (browser_places h)") auto
  have "case find_browser_executable h of
       Inr (Some c) \<Rightarrow> usable h (hd c) \<and> (tl c = [] \<or> (\<exists>i \<in> set app_ids. tl c = [''run'', i]))
     | _ \<Rightarrow> find (usable h) (browser_places h) = None"
  proof (cases "\<exists>c. find_browser_executable h = Inr (Some c)")
    case True
    then obtain c where "find_browser_executable h = Inr (Some c)" by blast
    with found show ?thesis by simp
  next
    case False
    from none [OF this] False show ?thesis by (auto split: sum.split option.split)
  qed
  with e show ?thesis by (rule conjI)
qed

definition one_browser :: browser_host where
  "one_browser = \<lparr>b_platform = ''linux'', b_home = ''/root'', b_environ = [''PATH'' \<mapsto> ''/usr/bin''],
     which_in = (\<lambda>name path. None), is_file = (\<lambda>p. p = ''/opt/google/chrome/chrome''),
     is_exec = (\<lambda>p. True), is_dir = (\<lambda>p. False), flatpak_info = (\<lambda>cmd env. None)\<rparr>"

lemma one_browser_found: "find (usable one_browser) (browser_places one_browser) = Some ''/opt/google/chrome/chrome''"
  by code_simp

theorem find_browser_linux_witness:
  "find_browser_executable one_browser = Inr (Some [''/opt/google/chrome/chrome''])"
proof -
  have "\<not> startswith (b_platform one_browser) ''win''" by code_simp
  from find_browser_linux [OF this, THEN conjunct1] show ?thesis by (simp add: one_browser_found)
qed

section \<open>What the browser is told\<close>

text \<open>The room is opened as an application window of its own profile; no flag hides the window.\<close>

lemma browser_cmd_args:
  "''--app='' @ url \<in> set (browser_cmd w c url p)" "''--user-data-dir='' @ p \<in> set (browser_cmd w c url p)"
  "prefix c (browser_cmd w c url p)"
  "''--no-sandbox'' \<in> set (browser_cmd False c url p)"
  by (simp_all add: browser_cmd_def linux_flags_def)

end
