(* ===== verification/Control_Server.thy ===== *)
theory Control_Server
  imports Process_Util Browser_Launcher Gui_Overlay
begin

text \<open>
  control_server.py: the facade that starts the parts in order and cleans up at the end. What the
  machine answers during the start is one record; the facade keeps its own fields, the state of
  the audio part, of the bridge and of the disk, and the commands that were run for their effect.
\<close>

section \<open>State\<close>

record machine =
  m_platform :: string
  m_pid :: nat
  m_netstat :: "string \<Rightarrow> string option"
  m_cmd_raises :: "string list \<Rightarrow> bool"
  m_ip_output :: "string option"
  m_sock_ip :: "string option"
  m_default_source :: "string option"
  m_default_sink :: "string option"
  m_load_module :: "(int \<times> string) option"
  m_mics :: "string option"
  m_devices :: "(string \<times> reg_value list option \<times> bool) list option"
  m_tools :: go_tools
  m_base :: path
  m_cwd :: path
  m_server_raises :: "server_call \<Rightarrow> bool"
  m_clock :: "nat \<Rightarrow> int"
  m_exited :: "nat \<Rightarrow> int option"
  m_answer :: "nat \<Rightarrow> probe"
  m_browser :: browser_host
  m_tempdir :: string
  m_makedirs_raises :: bool
  m_browser_raises :: "string list \<Rightarrow> bool"

record facade =
  room_name :: string
  lan_ip :: string
  viewer_url :: string
  server_proc :: "server_call option"
  browser_proc :: "(string list \<times> env) option"
  shown_toolbar :: "toolbar option"
  cleanup_connected :: bool
  link_file :: "string option"
  bridge_state :: bridge
  bridge_running :: bool
  sync_running :: bool
  audio_state :: audio_vars
  enabled_devices :: "string list"
  host_disk :: disk
  commands :: cmds

definition init_facade :: "string \<Rightarrow> disk \<Rightarrow> facade" where
  "init_facade room d =
     \<lparr>room_name = room, lan_ip = ''127.0.0.1'', viewer_url = '''', server_proc = None, browser_proc = None,
      shown_toolbar = None, cleanup_connected = False, link_file = None, bridge_state = initial_bridge,
      bridge_running = False, sync_running = False, audio_state = initial_audio, enabled_devices = [], host_disk = d, commands = []\<rparr>"

section \<open>Start\<close>

text \<open>The first half, up to the start of the server.\<close>

definition prepare :: "machine \<Rightarrow> facade \<Rightarrow> facade \<times> start_error option" where
  "prepare m f =
     (case kill_port_owners (m_platform m) (m_pid m) (m_netstat m) (m_cmd_raises m) of
        (cs, Some e) \<Rightarrow> (f\<lparr>commands := commands f @ cs\<rparr>, Some (Raised e))
      | (cs, None) \<Rightarrow>
          let f = f\<lparr>commands := commands f @ cs\<rparr>;
              f = f\<lparr>lan_ip := detect_lan_ip (m_platform m) (m_ip_output m) (m_sock_ip m)\<rparr>;
              f = f\<lparr>viewer_url := ''http://'' @ lan_ip f @ '':5050/?room='' @ room_name f @ ''&create=true''\<rparr>;
              f = f\<lparr>link_file := Some (write_link_file (''http://'' @ lan_ip f @ '':5050/?room='' @ room_name f))\<rparr>;
              (v, cs) = setup_pipewire_audio (m_platform m) (m_default_source m) (m_default_sink m) (m_load_module m) (audio_state f);
              f = f\<lparr>audio_state := v, commands := commands f @ cs\<rparr>;
              f = f\<lparr>enabled_devices := setup_windows_audio (m_platform m) (m_devices m)\<rparr>;
              f = f\<lparr>commands := commands f @ set_physical_mics_muted (m_platform m) (m_mics m) (audio_state f) False\<rparr>
          in (case start_screenshare_server (m_tools m) (m_base m) (m_cwd m) (m_server_raises m) (lan_ip f) (host_disk f) of
                (d, Inl e) \<Rightarrow> (f\<lparr>host_disk := d\<rparr>, Some e)
              | (d, Inr call) \<Rightarrow> (f\<lparr>host_disk := d, server_proc := Some call\<rparr>, None)))"

text \<open>The second half; the answer of the health check is only written to the log.\<close>

definition bring_up :: "machine \<Rightarrow> bool \<Rightarrow> facade \<Rightarrow> facade \<times> start_error option" where
  "bring_up m server_healthy f =
     (let f = f\<lparr>bridge_state := set_pending_action ''start_share'' (bridge_state f)\<rparr>;
          f = f\<lparr>bridge_running := True, sync_running := True\<rparr>;
          room_url = ''http://127.0.0.1:5050/?room='' @ room_name f @ ''&create=true''
      in case launch_hidden_browser (m_browser m) (m_tempdir m) (m_makedirs_raises m) (m_browser_raises m) room_url of
           Inl e \<Rightarrow> (f, Some (Raised e))
         | Inr p \<Rightarrow> (f\<lparr>browser_proc := p, shown_toolbar := Some init_toolbar, cleanup_connected := True\<rparr>, None))"

text \<open>None where the wait for the server does not end.\<close>

definition start :: "machine \<Rightarrow> facade \<Rightarrow> (facade \<times> start_error option) option" where
  "start m f =
     (case prepare m f of
        (f, Some e) \<Rightarrow> Some (f, Some e)
      | (f, None) \<Rightarrow>
          (case wait_for_server (m_clock m) (m_exited m) (m_answer m) 6000000 of
             None \<Rightarrow> None
           | Some server_healthy \<Rightarrow> Some (bring_up m server_healthy f)))"

section \<open>Clean-up\<close>

datatype proc = Browser | Server

datatype cleanup_event = CloseQr | Terminate proc | Kill proc | Pactl "string list"

text \<open>A process that has not ended two seconds after terminate is killed.\<close>

definition end_proc :: "proc \<Rightarrow> bool \<Rightarrow> bool \<Rightarrow> cleanup_event list" where
  "end_proc p started ends_in_time =
     (if started then Terminate p # (if ends_in_time then [] else [Kill p]) else [])"

definition cleanup :: "machine \<Rightarrow> (proc \<Rightarrow> bool) \<Rightarrow> facade \<Rightarrow> cleanup_event list" where
  "cleanup m ends_in_time f =
     (if shown_toolbar f \<noteq> None then [CloseQr] else []) @
     end_proc Browser (browser_proc f \<noteq> None) (ends_in_time Browser) @
     end_proc Server (server_proc f \<noteq> None) (ends_in_time Server) @
     map Pactl (cleanup_audio (m_platform m) (m_mics m) (audio_state f))"

definition pactl_cmds :: "cleanup_event list \<Rightarrow> cmds" where
  "pactl_cmds es = List.map_filter (\<lambda>e. case e of Pactl c \<Rightarrow> Some c | _ \<Rightarrow> None) es"

section \<open>What a start leaves\<close>

text \<open>The first half, as a chain of equations.\<close>

lemma prepare_fields:
  assumes "snd (kill_port_owners (m_platform m) (m_pid m) (m_netstat m) (m_cmd_raises m)) = None"
  shows "audio_state (fst (prepare m f)) =
      fst (setup_pipewire_audio (m_platform m) (m_default_source m) (m_default_sink m) (m_load_module m) (audio_state f))"
    and "commands (fst (prepare m f)) = commands f @
      fst (kill_port_owners (m_platform m) (m_pid m) (m_netstat m) (m_cmd_raises m)) @
      snd (setup_pipewire_audio (m_platform m) (m_default_source m) (m_default_sink m) (m_load_module m) (audio_state f)) @
      set_physical_mics_muted (m_platform m) (m_mics m) (audio_state (fst (prepare m f))) False"
    and "cleanup_connected (fst (prepare m f)) = cleanup_connected f"
    and "snd (prepare m f) =
      (case snd (start_screenshare_server (m_tools m) (m_base m) (m_cwd m) (m_server_raises m)
          (detect_lan_ip (m_platform m) (m_ip_output m) (m_sock_ip m)) (host_disk f)) of
         Inl e \<Rightarrow> Some e | Inr _ \<Rightarrow> None)"
proof -
  obtain cs where cs: "kill_port_owners (m_platform m) (m_pid m) (m_netstat m) (m_cmd_raises m) = (cs, None)"
    using assms by (metis prod.collapse)
  obtain v as where v: "setup_pipewire_audio (m_platform m) (m_default_source m) (m_default_sink m) (m_load_module m) (audio_state f) = (v, as)"
    by (cases "setup_pipewire_audio (m_platform m) (m_default_source m) (m_default_sink m) (m_load_module m) (audio_state f)")
  obtain d r where s: "start_screenshare_server (m_tools m) (m_base m) (m_cwd m) (m_server_raises m)
      (detect_lan_ip (m_platform m) (m_ip_output m) (m_sock_ip m)) (host_disk f) = (d, r)"
    by (cases "start_screenshare_server (m_tools m) (m_base m) (m_cwd m) (m_server_raises m)
      (detect_lan_ip (m_platform m) (m_ip_output m) (m_sock_ip m)) (host_disk f)")
  show a: "audio_state (fst (prepare m f)) =
      fst (setup_pipewire_audio (m_platform m) (m_default_source m) (m_default_sink m) (m_load_module m) (audio_state f))"
    by (simp add: prepare_def cs v s Let_def split: sum.split)
  show "cleanup_connected (fst (prepare m f)) = cleanup_connected f"
    by (simp add: prepare_def cs v s Let_def split: sum.split)
  show "snd (prepare m f) = (case snd (start_screenshare_server (m_tools m) (m_base m) (m_cwd m) (m_server_raises m)
          (detect_lan_ip (m_platform m) (m_ip_output m) (m_sock_ip m)) (host_disk f)) of Inl e \<Rightarrow> Some e | Inr _ \<Rightarrow> None)"
    by (simp add: prepare_def cs v s Let_def split: sum.split)
  show "commands (fst (prepare m f)) = commands f @
      fst (kill_port_owners (m_platform m) (m_pid m) (m_netstat m) (m_cmd_raises m)) @
      snd (setup_pipewire_audio (m_platform m) (m_default_source m) (m_default_sink m) (m_load_module m) (audio_state f)) @
      set_physical_mics_muted (m_platform m) (m_mics m) (audio_state (fst (prepare m f))) False"
    unfolding a by (simp add: prepare_def cs v s Let_def split: sum.split)
qed

lemma fuser_cmds:
  assumes "c \<in> set (fst (kill_port_owners ''linux'' pid netstat raises))"
  shows "length c = 3 \<and> c ! 1 = ''-k''"
proof -
  have "c \<in> set (fst (run_all raises (map (\<lambda>port. [''fuser'', ''-k'', port]) [''5050/tcp'', ''5055/tcp'', ''3478/tcp'', ''3478/udp''])))"
    using assms by (simp add: kill_port_owners_def)
  from subsetD [OF run_all_subset this]
  show ?thesis by auto
qed

lemma fuser_default [simp]: "default_after (fst (kill_port_owners ''linux'' pid netstat raises)) d = d"
  by (rule default_after_other) (auto dest!: fuser_cmds)

lemma bring_up_ok:
  assumes "bring_up m b f = (f', None)"
  obtains p where "f' = f\<lparr>bridge_state := set_pending_action ''start_share'' (bridge_state f), bridge_running := True,
      sync_running := True, browser_proc := p, shown_toolbar := Some init_toolbar, cleanup_connected := True\<rparr>"
  using assms by (auto simp: bring_up_def Let_def split: sum.splits)

lemma prepare_ok_kill: "prepare m f = (f', None) \<Longrightarrow> snd (kill_port_owners (m_platform m) (m_pid m) (m_netstat m) (m_cmd_raises m)) = None"
  by (auto simp: prepare_def split: prod.splits option.splits)

lemma prepare_ok_server: "prepare m f = (f', None) \<Longrightarrow> server_proc f' \<noteq> None"
  by (auto simp: prepare_def Let_def split: prod.splits option.splits sum.splits)

lemma start_ok:
  assumes "start m f = Some (f', None)"
  obtains f1 b where "prepare m f = (f1, None)" "bring_up m b f1 = (f', None)"
  using assms unfolding start_def by (auto split: prod.splits option.splits)

lemma pactl_cmds_cleanup: "pactl_cmds (cleanup m t f) = cleanup_audio (m_platform m) (m_mics m) (audio_state f)"
proof -
  have m: "List.map_filter (\<lambda>e. case e of Pactl c \<Rightarrow> Some c | _ \<Rightarrow> None) (map Pactl cs) = cs" for cs
    by (induction cs) (simp_all add: map_filter_simps)
  have a: "List.map_filter g (xs @ ys) = List.map_filter g xs @ List.map_filter g ys" for g and xs ys :: "cleanup_event list"
    by (simp add: map_filter_def)
  show ?thesis
    by (simp add: pactl_cmds_def cleanup_def end_proc_def a m map_filter_simps)
qed

text \<open>A start on Linux that does not fail: the state of the audio part and the commands so far.\<close>

lemma start_linux:
  assumes "m_platform m = ''linux''" "start m (init_facade room d) = Some (f, None)"
  defines "au \<equiv> setup_pipewire_audio ''linux'' (m_default_source m) (m_default_sink m) (m_load_module m) initial_audio"
  shows "audio_state f = fst au"
    and "commands f = fst (kill_port_owners ''linux'' (m_pid m) (m_netstat m) (m_cmd_raises m)) @ snd au @
      set_physical_mics_muted ''linux'' (m_mics m) (fst au) False"
    and "server_proc f \<noteq> None" "shown_toolbar f = Some init_toolbar" "cleanup_connected f"
proof -
  let ?f = "init_facade room d"
  obtain f1 b where f1: "prepare m ?f = (f1, None)" "bring_up m b f1 = (f, None)"
    using assms(2) by (rule start_ok)
  obtain p where p: "f = f1\<lparr>bridge_state := set_pending_action ''start_share'' (bridge_state f1), bridge_running := True,
      sync_running := True, browser_proc := p, shown_toolbar := Some init_toolbar, cleanup_connected := True\<rparr>"
    using f1(2) by (rule bring_up_ok)
  note k = prepare_ok_kill [OF f1(1)]
  show v: "audio_state f = fst au"
    using prepare_fields(1) [OF k, of ?f] f1(1) p assms(1) by (simp add: init_facade_def au_def)
  show "commands f = fst (kill_port_owners ''linux'' (m_pid m) (m_netstat m) (m_cmd_raises m)) @ snd au @
      set_physical_mics_muted ''linux'' (m_mics m) (fst au) False"
    using prepare_fields(2) [OF k, of ?f] f1(1) p assms(1) v by (simp add: init_facade_def au_def)
  show "server_proc f \<noteq> None" "shown_toolbar f = Some init_toolbar" "cleanup_connected f"
    using prepare_ok_server [OF f1(1)] p by simp_all
qed

text \<open>
  A start that does not fail leaves the state of the bridge as it was, with start_share pending.
\<close>

lemma start_bridge: "start m (init_facade room d) = Some (f, None) \<Longrightarrow> bridge_state f = set_pending_action ''start_share'' initial_bridge"
proof -
  have p: "bridge_state (fst (prepare m f)) = bridge_state f" for f
    by (simp add: prepare_def Let_def split: prod.split option.split sum.split)
  assume "start m (init_facade room d) = Some (f, None)"
  then obtain f1 b where f1: "prepare m (init_facade room d) = (f1, None)" "bring_up m b f1 = (f, None)" by (rule start_ok)
  have "bridge_state f1 = initial_bridge" using p [of "init_facade room d"] f1(1) by (simp add: init_facade_def)
  then show "bridge_state f = set_pending_action ''start_share'' initial_bridge"
    using f1(2) by (auto elim: bring_up_ok)
qed

text \<open>The commands of the clean-up undo those of the start, whatever is listed then.\<close>

lemma session_default:
  assumes "m_platform m = ''linux''" "m_default_source m = Some src" "strip src \<noteq> []"
    and "start m (init_facade room d) = Some (f, None)"
  shows "default_after (commands f @ cleanup_audio ''linux'' l (audio_state f)) dflt = strip src"
proof -
  note s = start_linux [OF assms(1,4), unfolded assms(2)]
  show ?thesis
    using restores_default [OF assms(3)] by (simp add: s(1,2) default_after_append)
qed

text \<open>C14: The clean-up is connected only at the end of the start. Where the server binary is
  missing, or anything else in the start of the server fails, the program ends after the audio was
  set up, and the virtual source stays the default source of the user.\<close>

theorem aborted_start_leaves_audio:
  assumes "m_platform m = ''linux''"
    and "snd (kill_port_owners ''linux'' (m_pid m) (m_netstat m) (m_cmd_raises m)) = None"
    and "m_default_source m = Some src" "m_default_sink m = Some sink" "strip sink \<noteq> []"
    and "m_load_module m = Some (0, out)" "isdigit (strip out)"
    and "snd (start_screenshare_server (m_tools m) (m_base m) (m_cwd m) (m_server_raises m)
      (detect_lan_ip ''linux'' (m_ip_output m) (m_sock_ip m)) d) = Inl e"
  shows "\<exists>f. start m (init_facade room d) = Some (f, Some e) \<and> \<not> cleanup_connected f \<and>
    original_default_source (audio_state f) = Some (strip src) \<and>
    default_after (commands f) dflt = ''ComputerSound''"
proof -
  let ?f = "init_facade room d"
  let ?audio = "setup_pipewire_audio ''linux'' (Some src) (Some sink) (Some (0, out)) initial_audio"
  have k: "snd (kill_port_owners (m_platform m) (m_pid m) (m_netstat m) (m_cmd_raises m)) = None"
    using assms(1,2) by simp
  note p = prepare_fields [OF k, of ?f]
  have s: "snd (prepare m ?f) = Some e"
    using p(4) assms(1,8) by (simp add: init_facade_def)
  have v: "audio_state (fst (prepare m ?f)) = fst ?audio"
    using p(1) assms(1,3,4,6) by (simp add: init_facade_def)
  have c: "commands (fst (prepare m ?f)) = fst (kill_port_owners ''linux'' (m_pid m) (m_netstat m) (m_cmd_raises m)) @
      snd ?audio @ set_physical_mics_muted ''linux'' (m_mics m) (fst ?audio) False"
    using p(2) assms(1,3,4,6) v by (simp add: init_facade_def)
  have "default_after (snd ?audio) x = ''ComputerSound''" for x
    using assms(5,7) by (simp add: setup_pipewire_audio_def load_cmd_def set_source_mute_def)
  then have "default_after (commands (fst (prepare m ?f))) dflt = ''ComputerSound''"
    unfolding c by (simp add: default_after_append)
  moreover have "original_default_source (fst ?audio) = Some (strip src)"
    using assms(5,7) by (simp add: setup_pipewire_audio_def)
  moreover have "start m ?f = Some (fst (prepare m ?f), Some e)"
    using s by (cases "prepare m ?f") (simp add: start_def)
  moreover have "\<not> cleanup_connected (fst (prepare m ?f))" using p(3) by (simp add: init_facade_def)
  ultimately show ?thesis using v by auto
qed

section \<open>A machine\<close>

definition sample_machine :: machine where
  "sample_machine =
     \<lparr>m_platform = ''linux'', m_pid = 42, m_netstat = (\<lambda>_. None), m_cmd_raises = (\<lambda>_. False),
      m_ip_output = None, m_sock_ip = Some ''10.0.0.2'', m_default_source = Some ''mic'', m_default_sink = Some ''out'',
      m_load_module = Some (0, ''17''), m_mics = None, m_devices = None,
      m_tools = failing_tools\<lparr>tool_isfile := \<lambda>_. False\<rparr>, m_base = [''app''], m_cwd = [''app''],
      m_server_raises = (\<lambda>_. False), m_clock = (\<lambda>i. 300000 * int i), m_exited = (\<lambda>_. None),
      m_answer = (\<lambda>_. Status 200), m_browser = one_browser, m_tempdir = ''/tmp'', m_makedirs_raises = False,
      m_browser_raises = (\<lambda>_. False)\<rparr>"

lemma sample_wait: "wait_for_server (m_clock sample_machine) (m_exited sample_machine) (m_answer sample_machine) 6000000 = Some True"
  by (simp add: wait_for_server_def sample_machine_def wait_loop.simps)

lemma sample_no_server:
  "snd (start_screenshare_server failing_tools [''app''] [''app''] (\<lambda>_. False) ip server_disk) = Inl (SystemExit 1)"
proof -
  have "find_or_build_binary failing_tools [''app''] [''app''] server_disk =
      (fst (find_or_build_binary failing_tools [''app''] [''app''] server_disk), Inr None)"
    by (metis failing_build_no_server(1) prod.collapse)
  then show ?thesis by (auto simp: start_screenshare_server_def split: prod.split)
qed

lemma sample_browser:
  "\<exists>p. launch_hidden_browser one_browser ''/tmp'' False (\<lambda>_. False) url = Inr (Some p)"
proof -
  have "find_browser_executable one_browser = Inr (Some [''/opt/google/chrome/chrome''])" by code_simp
  then show ?thesis by (simp add: launch_hidden_browser_def Let_def)
qed

lemma sample_kill: "snd (kill_port_owners ''linux'' pid netstat (\<lambda>_. False)) = None"
  by (simp add: kill_port_owners_def)

lemma sample_start: "\<exists>f. start sample_machine (init_facade ''a'' server_disk) = Some (f, None)"
proof -
  have k: "snd (kill_port_owners (m_platform sample_machine) (m_pid sample_machine) (m_netstat sample_machine)
      (m_cmd_raises sample_machine)) = None"
    by (simp add: sample_machine_def sample_kill)
  obtain d call where "start_screenshare_server (m_tools sample_machine) (m_base sample_machine) (m_cwd sample_machine)
      (m_server_raises sample_machine) (detect_lan_ip (m_platform sample_machine) (m_ip_output sample_machine) (m_sock_ip sample_machine))
      server_disk = (d, Inr call)"
    using sample_server [of "detect_lan_ip ''linux'' None (Some ''10.0.0.2'')"] by (auto simp: sample_machine_def)
  then have "snd (prepare sample_machine (init_facade ''a'' server_disk)) = None"
    using prepare_fields(4) [OF k, of "init_facade ''a'' server_disk"] by (simp add: init_facade_def)
  then obtain f1 where f1: "prepare sample_machine (init_facade ''a'' server_disk) = (f1, None)" by (metis prod.collapse)
  obtain p where "launch_hidden_browser (m_browser sample_machine) (m_tempdir sample_machine) (m_makedirs_raises sample_machine)
      (m_browser_raises sample_machine) (''http://127.0.0.1:5050/?room='' @ room_name f1 @ ''&create=true'') = Inr (Some p)"
    using sample_browser [of "''http://127.0.0.1:5050/?room='' @ room_name f1 @ ''&create=true''"] by (auto simp: sample_machine_def)
  then have "snd (bring_up sample_machine True f1) = None"
    by (simp add: bring_up_def Let_def)
  then show ?thesis using f1 sample_wait by (simp add: start_def) (metis prod.collapse)
qed

theorem aborted_start_leaves_audio_witness:
  "\<exists>f. start (sample_machine\<lparr>m_tools := failing_tools\<rparr>) (init_facade ''a'' server_disk) = Some (f, Some (SystemExit 1)) \<and>
    default_after (commands f) ''mic'' = ''ComputerSound''"
proof -
  have d: "isdigit (strip ''17'')" "strip ''out'' \<noteq> []" by code_simp+
  have "\<exists>f. start (sample_machine\<lparr>m_tools := failing_tools\<rparr>) (init_facade ''a'' server_disk) = Some (f, Some (SystemExit 1)) \<and>
      \<not> cleanup_connected f \<and> original_default_source (audio_state f) = Some (strip ''mic'') \<and>
      default_after (commands f) ''mic'' = ''ComputerSound''"
    by (rule aborted_start_leaves_audio [OF _ _ _ _ d(2) _ d(1)])
       (simp_all add: sample_machine_def sample_kill sample_no_server)
  then show ?thesis by blast
qed

end
