(* ===== verification/Host_Run.thy ===== *)
theory Host_Run
  imports Host_System Control_Server
begin

text \<open>
  A whole run of the program (ScreenShareHostFacade.run in control_server.py): the start, the
  events of the toolbar, the bridge and the page until the user quits, and the clean-up, with the
  thread that follows the volume at its side. The commands of a run are the ones of all parts in
  the order they are run.
\<close>

section \<open>The commands of a step\<close>

text \<open>
  The commands the steps of the host run: those of the toolbar in its thread, those of a report
  in the thread of its request. Polls and events of the page run none.
\<close>

definition command_of :: "bridge_effect \<Rightarrow> string list option" where
  "command_of e = (case e of Command c \<Rightarrow> Some c | _ \<Rightarrow> None)"

definition step_cmds :: "host_env \<Rightarrow> (bool \<Rightarrow> cmds) \<Rightarrow> host_event \<Rightarrow> host \<Rightarrow> cmds" where
  "step_cmds env mute e h =
     (case e of
        Gui g \<Rightarrow> snd (gui_handle env mute g (toolbar_of h, bridge_of h))
      | Arrive \<Rightarrow> List.map_filter command_of (snd (state_request mute (report_body (hd (in_flight h))) (bridge_of h)))
      | _ \<Rightarrow> [])"

text \<open>Each event comes with what pactl lists as sources at that moment.\<close>

definition listed_mute :: "host_env \<Rightarrow> string option \<Rightarrow> bool \<Rightarrow> cmds" where
  "listed_mute env listing = set_physical_mics_muted (platform env) listing (audio env)"

fun run_host :: "host_env \<Rightarrow> (host_event \<times> string option) list \<Rightarrow> host \<Rightarrow> host \<times> cmds" where
  "run_host env [] h = (h, [])"
| "run_host env ((e, listing) # es) h =
     (case run_host env es (host_step env (listed_mute env listing) e h) of
        (h', cs) \<Rightarrow> (h', step_cmds env (listed_mute env listing) e h @ cs))"

fun possible_run :: "host_env \<Rightarrow> (host_event \<times> string option) list \<Rightarrow> host \<Rightarrow> bool" where
  "possible_run env [] h \<longleftrightarrow> True"
| "possible_run env ((e, listing) # es) h \<longleftrightarrow>
     host_possible e h \<and> possible_run env es (host_step env (listed_mute env listing) e h)"

section \<open>A run\<close>

text \<open>The host the start hands over to the event loop.\<close>

definition enter_host :: "facade \<Rightarrow> host" where
  "enter_host f =
     \<lparr>page_of = init_page, bridge_of = bridge_state f, toolbar_of = the (shown_toolbar f), arrived = 0\<rparr>"

definition env_of :: "machine \<Rightarrow> int \<Rightarrow> facade \<Rightarrow> host_env" where
  "env_of m w f = \<lparr>platform = m_platform m, audio = audio_state f, width = w\<rparr>"

text \<open>Two threads: the schedule says which of them has the next turn.\<close>

fun interleave :: "bool list \<Rightarrow> 'a list \<Rightarrow> 'a list \<Rightarrow> 'a list" where
  "interleave ss [] ys = ys"
| "interleave ss xs [] = xs"
| "interleave [] xs ys = xs @ ys"
| "interleave (True # ss) (x # xs) ys = x # interleave ss xs ys"
| "interleave (False # ss) xs (y # ys) = y # interleave ss xs ys"

text \<open>
  What happens in a run: the events with the sources of their moments, the thread that follows
  the volume (which of its commands raise, its first query and the events it reads), the schedule
  of this thread and the main one, the sources at the end, and which process ends in time.
\<close>

record session_input =
  happenings :: "(host_event \<times> string option) list"
  bar_width :: int
  sync_raises :: "string list \<Rightarrow> bool"
  sync_first :: "string option"
  sync_events :: "(string \<times> string option) list"
  schedule :: "bool list"
  last_listing :: "string option"
  in_time :: "proc \<Rightarrow> bool"
  exit_code :: int

record outcome =
  ended_by :: start_error
  last_host :: "host option"
  effects :: "cleanup_event list"

text \<open>
  A start that fails ends the program without a clean-up. The thread of the volume runs beside
  the event loop and the clean-up, as long as the program does.
\<close>

definition run :: "machine \<Rightarrow> session_input \<Rightarrow> facade \<Rightarrow> outcome option" where
  "run m u f =
     (case start m f of
        None \<Rightarrow> None
      | Some (f, Some e) \<Rightarrow> Some \<lparr>ended_by = e, last_host = None, effects = map Pactl (commands f)\<rparr>
      | Some (f, None) \<Rightarrow>
          (case run_host (env_of m (bar_width u) f) (happenings u) (enter_host f) of
             (h, cs) \<Rightarrow> Some
               \<lparr>ended_by = SystemExit (exit_code u), last_host = Some h,
                effects = map Pactl (commands f) @
                  interleave (schedule u)
                    (map Pactl cs @ cleanup (m\<lparr>m_mics := last_listing u\<rparr>) (in_time u) f)
                    (map Pactl (sync_audio_volume (m_platform m) (sync_raises u) (audio_state f) (sync_first u) (sync_events u)))\<rparr>))"

text \<open>The variable that chooses the platform of Qt, set before Qt is loaded.\<close>

definition qt_env :: "string \<Rightarrow> env \<Rightarrow> env" where
  "qt_env sys_platform e =
     (if startswith sys_platform ''linux'' \<and> e ''QT_QPA_PLATFORM'' = None
      then e(''QT_QPA_PLATFORM'' \<mapsto> ''xcb;wayland'') else e)"

section \<open>Interleavings\<close>

lemma set_interleave [simp]: "set (interleave ss xs ys) = set xs \<union> set ys"
  by (induction ss xs ys rule: interleave.induct) auto

lemma filter_interleave:
  "(\<forall>y \<in> set ys. \<not> P y) \<Longrightarrow> filter P (interleave ss xs ys) = filter P xs"
  by (induction ss xs ys rule: interleave.induct) auto

lemma pactl_cmds_simps [simp]:
  "pactl_cmds [] = []" "pactl_cmds (Pactl c # es) = c # pactl_cmds es" "pactl_cmds (map Pactl cs) = cs"
  "pactl_cmds (es @ es') = pactl_cmds es @ pactl_cmds es'"
  "pactl_cmds (CloseQr # es) = pactl_cmds es" "pactl_cmds (Terminate p # es) = pactl_cmds es"
  "pactl_cmds (Kill p # es) = pactl_cmds es"
proof -
  have "List.map_filter (\<lambda>e. case e of Pactl c \<Rightarrow> Some c | _ \<Rightarrow> None) (map Pactl cs) = cs" for cs
    by (induction cs) (simp_all add: map_filter_simps)
  then show "pactl_cmds (map Pactl cs) = cs" by (simp add: pactl_cmds_def)
qed (simp_all add: pactl_cmds_def map_filter_simps map_filter_def)

text \<open>Commands that only set a volume.\<close>

definition volume_cmd :: "string list \<Rightarrow> bool" where
  "volume_cmd c \<longleftrightarrow> length c = 4 \<and> c ! 1 = ''set-source-volume''"

definition not_volume :: "cleanup_event \<Rightarrow> bool" where
  "not_volume e \<longleftrightarrow> (case e of Pactl c \<Rightarrow> \<not> volume_cmd c | _ \<Rightarrow> True)"

lemma not_volume_simps [simp]:
  "not_volume CloseQr" "not_volume (Terminate p)" "not_volume (Kill p)" "not_volume (Pactl c) \<longleftrightarrow> \<not> volume_cmd c"
  by (simp_all add: not_volume_def)

lemma copy_volume_cmd: "c \<in> set (copy_volume v out) \<Longrightarrow> volume_cmd c"
  by (drule copy_volume_shape) (auto simp: volume_cmd_def)

lemma sync_loop_volume: "c \<in> set (sync_loop raises v events) \<Longrightarrow> volume_cmd c"
  by (induction raises v events rule: sync_loop.induct) (auto split: if_splits option.splits dest: copy_volume_cmd)

lemma sync_volume: "c \<in> set (sync_audio_volume p raises v res events) \<Longrightarrow> volume_cmd c"
  by (auto simp: sync_audio_volume_def split: if_splits option.splits dest: copy_volume_cmd sync_loop_volume)

section \<open>What the commands leave\<close>

text \<open>Whether a source is muted after a list of commands.\<close>

fun muted_after :: "cmds \<Rightarrow> string \<Rightarrow> bool \<Rightarrow> bool" where
  "muted_after [] s b = b"
| "muted_after (c # cs) s b =
     muted_after cs s (if length c = 4 \<and> c ! 1 = ''set-source-mute'' \<and> c ! 2 = s then c ! 3 = ''1'' else b)"

lemma muted_after_append [simp]: "muted_after (cs @ ds) s b = muted_after ds s (muted_after cs s b)"
  by (induction cs arbitrary: b) auto

lemma muted_after_other:
  "(\<forall>c \<in> set cs. length c \<noteq> 4 \<or> c ! 1 \<noteq> ''set-source-mute'' \<or> c ! 2 \<noteq> s) \<Longrightarrow> muted_after cs s b = b"
  by (induction cs) auto

lemma muted_after_all:
  "(\<forall>c \<in> set cs. \<exists>x. c = set_source_mute x m) \<Longrightarrow>
    muted_after cs s b = (if \<exists>c \<in> set cs. c ! 2 = s then m else b)"
  by (induction cs arbitrary: b) (auto simp: set_source_mute_def split: if_splits)

text \<open>Volume commands change neither the default source nor what is muted.\<close>

lemma volume_cmd_after:
  assumes "volume_cmd c"
  shows "default_after (c # cs) d = default_after cs d" "muted_after (c # cs) s b = muted_after cs s b"
  using assms by (simp_all add: volume_cmd_def)

lemma default_not_volume: "default_after (pactl_cmds (filter not_volume es)) d = default_after (pactl_cmds es) d"
proof (induction es arbitrary: d)
  case (Cons e es)
  then show ?case by (cases e) (simp_all add: volume_cmd_after(1) del: default_after.simps(2), simp)
qed simp

lemma muted_not_volume: "muted_after (pactl_cmds (filter not_volume es)) s b = muted_after (pactl_cmds es) s b"
proof (induction es arbitrary: b)
  case (Cons e es)
  then show ?case by (cases e) (simp_all add: volume_cmd_after(2) del: muted_after.simps(2), simp)
qed simp

lemma beside_volume:
  assumes "\<forall>c \<in> set vs. volume_cmd c"
  shows "default_after (pactl_cmds (interleave ss es (map Pactl vs))) d = default_after (pactl_cmds es) d"
    and "muted_after (pactl_cmds (interleave ss es (map Pactl vs))) s b = muted_after (pactl_cmds es) s b"
proof -
  have "filter not_volume (interleave ss es (map Pactl vs)) = filter not_volume es"
    using assms by (intro filter_interleave) (auto simp: not_volume_def)
  then show "default_after (pactl_cmds (interleave ss es (map Pactl vs))) d = default_after (pactl_cmds es) d"
      "muted_after (pactl_cmds (interleave ss es (map Pactl vs))) s b = muted_after (pactl_cmds es) s b"
    by (metis default_not_volume, metis muted_not_volume)
qed

lemma map_interleave: "map f (interleave ss xs ys) = interleave ss (map f xs) (map f ys)"
  by (induction ss xs ys rule: interleave.induct) auto

lemma beside_volume_cmds:
  "\<forall>c \<in> set vs. volume_cmd c \<Longrightarrow> muted_after (interleave ss cs vs) s b = muted_after cs s b"
  using beside_volume(2) [of vs ss "map Pactl cs" s b] by (simp add: map_interleave [symmetric])

text \<open>A microphone of the machine: a physical source that is listed, or the default source of the start.\<close>

definition machine_mic :: "string option \<Rightarrow> audio_vars \<Rightarrow> string \<Rightarrow> bool" where
  "machine_mic listing v s \<longleftrightarrow>
     physical_source s \<and>
     (s \<in> set (get_physical_mic_sources ''linux'' listing) \<or> (s \<noteq> [] \<and> original_default_source v = Some s))"

lemma mute_sets:
  assumes "machine_mic listing v s"
  shows "muted_after (set_physical_mics_muted ''linux'' listing v m) s b = m"
proof -
  have "set_source_mute s m \<in> set (set_physical_mics_muted ''linux'' listing v m)"
    using assms by (auto simp: mute_cmds machine_mic_def)
  moreover have "set_source_mute s m ! 2 = s" by (simp add: set_source_mute_def)
  ultimately have "\<exists>c \<in> set (set_physical_mics_muted ''linux'' listing v m). c ! 2 = s" by metis
  then show ?thesis by (subst muted_after_all) (auto simp: mute_cmds)
qed

section \<open>Steps of the host and the microphones\<close>

lemma muted_after_active:
  "get_active_audio_source v \<noteq> s \<Longrightarrow> muted_after [set_source_mute (get_active_audio_source v) m] s b = b"
  by (simp add: set_source_mute_def)

lemma report_cmds:
  "List.map_filter command_of (snd (state_request mute (report_body r) b)) =
     (case map_of (rev r) ''micMuted'' of Some v \<Rightarrow> mute v | None \<Rightarrow> [])"
proof -
  have m: "List.map_filter command_of (map Command cs) = cs" for cs
    by (induction cs) (simp_all add: map_filter_simps command_of_def)
  have d: "dict_get (map (\<lambda>(k, b). (k, PBool b)) r) k = map_option PBool (map_of (rev r) k)" for k
    by (simp add: dict_get_def rev_map_bool)
  show ?thesis
    by (simp add: state_request_def report_body_def update_app_state_def dict_update_def fold_update_dict
        has_mic_key_def mic_value_def d map_filter_simps command_of_def m split: option.split)
qed

lemma gui_mics:
  assumes "platform env = ''linux''" "machine_mic listing (audio env) s" "get_active_audio_source (audio env) \<noteq> s"
    and "gui_handle env (listed_mute env listing) g (t, b) = ((t', b'), cs)"
  shows "muted_after cs s (flag (app_state b) ''micMuted'') = flag (app_state b') ''micMuted''"
proof -
  have m: "muted_after (listed_mute env listing m) s x = m" for m x
    using mute_sets [OF assms(2)] assms(1) by (simp add: listed_mute_def)
  show ?thesis
    using assms(4,1) muted_after_active [OF assms(3)] m
    by (cases g) (auto simp: gui_handle_def toggle_share_def trigger_pause_def toggle_sound_def toggle_mic_def Let_def
        case_prod_beta split: if_splits)
qed

lemma step_mics:
  assumes "platform env = ''linux''" "machine_mic listing (audio env) s" "get_active_audio_source (audio env) \<noteq> s"
  defines "mute \<equiv> listed_mute env listing"
  shows "muted_after (step_cmds env mute e h) s (flag (app_state (bridge_of h)) ''micMuted'') =
    flag (app_state (bridge_of (host_step env mute e h))) ''micMuted''"
proof (cases e)
  case (Gui g)
  obtain t b cs where g: "gui_handle env mute g (toolbar_of h, bridge_of h) = ((t, b), cs)" by (metis prod.collapse)
  from gui_mics [OF assms(1-3) g [unfolded mute_def]] show ?thesis
    by (simp add: Gui step_cmds_def host_step_def g)
next
  case Arrive
  have "muted_after (mute m) s x = m" for m x
    using mute_sets [OF assms(2)] assms(1) by (simp add: mute_def listed_mute_def)
  then show ?thesis
    by (simp add: Arrive step_cmds_def host_step_def report_cmds arrive_fields upd_def split: option.split)
qed (simp_all add: step_cmds_def host_step_def poll_fields)

text \<open>All commands of the steps name a source and a value.\<close>

lemma step_cmds_shape:
  assumes "platform env = ''linux''" "c \<in> set (step_cmds env (listed_mute env listing) e h)"
  shows "length c = 4"
proof -
  have m: "length c = 4" if "c \<in> set (listed_mute env listing x)" for x
    using that assms(1) by (auto simp: listed_mute_def dest: mute_shape)
  show ?thesis
  proof (cases e)
    case (Gui g)
    have "c \<in> set (snd (gui_handle env (listed_mute env listing) g (toolbar_of h, bridge_of h)))"
      using assms(2) Gui by (simp add: step_cmds_def)
    then show ?thesis
      using m assms(1)
      by (cases g) (auto simp: gui_handle_def toggle_sound_def toggle_mic_def Let_def case_prod_beta set_source_mute_def)
  qed (use assms(2) m in \<open>auto simp: step_cmds_def report_cmds split: option.splits\<close>)
qed

lemma run_host_mics:
  assumes "platform env = ''linux''" "\<forall>(e, l) \<in> set es. machine_mic l (audio env) s" "get_active_audio_source (audio env) \<noteq> s"
    and "run_host env es h = (h', cs)"
  shows "muted_after cs s (flag (app_state (bridge_of h)) ''micMuted'') = flag (app_state (bridge_of h')) ''micMuted''"
  using assms(2,4)
proof (induction es arbitrary: h h' cs)
  case (Cons e es)
  obtain e' l where e: "e = (e', l)" by fastforce
  obtain k ds where k: "run_host env es (host_step env (listed_mute env l) e' h) = (k, ds)" by fastforce
  have "machine_mic l (audio env) s" using Cons.prems(1) e by simp
  from step_mics [OF assms(1) this assms(3), of e' h] Cons.IH [OF _ k] Cons.prems show ?case
    by (auto simp: e k)
qed simp

lemma run_host_shape:
  assumes "platform env = ''linux''" "c \<in> set (snd (run_host env es h))"
  shows "length c = 4"
  using assms(2)
proof (induction es arbitrary: h)
  case (Cons e es)
  then show ?case
    by (cases e) (auto simp: case_prod_beta dest: step_cmds_shape [OF assms(1)])
qed simp

text \<open>A run of possible events passes through reachable states only; what is listed does not matter.\<close>

lemma gui_handle_mute: "fst (gui_handle env mute g s) = fst (gui_handle env mute' g s)"
  by (cases g; cases s) (simp_all add: gui_handle_def toggle_sound_def toggle_mic_def update_gui_state_def Let_def)

lemma host_step_mute: "host_step env mute e h = host_step env mute' e h"
proof -
  have "fst (state_request mute data b) = fst (state_request mute' data b)" for data b
    by (simp add: state_request_def Let_def case_prod_beta)
  then show ?thesis
    using gui_handle_mute [of env mute _ _ mute'] by (simp add: host_step_def arrive_step_def split: host_event.split)
qed

lemma run_host_reach:
  assumes "host_reach env mute h" "possible_run env es h"
  shows "host_reach env mute (fst (run_host env es h))"
  using assms
proof (induction es arbitrary: h)
  case (Cons e es)
  obtain e' l where e: "e = (e', l)" by fastforce
  have "host_reach env mute (host_step env (listed_mute env l) e' h)"
    unfolding host_step_mute [of env "listed_mute env l" e' h mute]
    using Cons.prems e by (intro host_reach.step) simp_all
  from Cons.IH [OF this] Cons.prems(2) show ?case by (simp add: e case_prod_beta)
qed simp

section \<open>Runs after a start\<close>

lemma enter_init: "start m (init_facade room d) = Some (f, None) \<Longrightarrow> enter_host f = init_host"
proof -
  assume s: "start m (init_facade room d) = Some (f, None)"
  have i: "set_pending_action ''start_share'' initial_bridge = initial_bridge"
    by (simp add: set_pending_action_def initial_bridge_def)
  obtain f1 b where "bring_up m b f1 = (f, None)" using s by (rule start_ok)
  then have "shown_toolbar f = Some init_toolbar" by (auto elim: bring_up_ok)
  then show "enter_host f = init_host" using start_bridge [OF s] i by (simp add: enter_host_def init_host_def)
qed

lemma run_cases:
  assumes "run m u (init_facade room d) = Some r" "last_host r = Some h"
  obtains f cs where "start m (init_facade room d) = Some (f, None)"
    "run_host (env_of m (bar_width u) f) (happenings u) init_host = (h, cs)"
    "effects r = map Pactl (commands f) @ interleave (schedule u)
       (map Pactl cs @ cleanup (m\<lparr>m_mics := last_listing u\<rparr>) (in_time u) f)
       (map Pactl (sync_audio_volume (m_platform m) (sync_raises u) (audio_state f) (sync_first u) (sync_events u)))"
proof -
  obtain f where f: "start m (init_facade room d) = Some (f, None)"
    using assms by (auto simp: run_def split: option.splits prod.splits)
  obtain h' cs where c: "run_host (env_of m (bar_width u) f) (happenings u) init_host = (h', cs)" by fastforce
  have "h' = h" using assms by (auto simp: run_def f enter_init [OF f] c)
  moreover have "effects r = map Pactl (commands f) @ interleave (schedule u)
       (map Pactl cs @ cleanup (m\<lparr>m_mics := last_listing u\<rparr>) (in_time u) f)
       (map Pactl (sync_audio_volume (m_platform m) (sync_raises u) (audio_state f) (sync_first u) (sync_events u)))"
    using assms by (auto simp: run_def f enter_init [OF f] c)
  ultimately show thesis using that f c by blast
qed

text \<open>What the commands of a run leave, and which processes it ends.\<close>

lemma run_after:
  assumes "run m u (init_facade room d) = Some r" "last_host r = Some h"
  obtains f cs where "start m (init_facade room d) = Some (f, None)"
    "run_host (env_of m (bar_width u) f) (happenings u) init_host = (h, cs)"
    "\<And>x. default_after (pactl_cmds (effects r)) x =
       default_after (commands f @ cs @ cleanup_audio (m_platform m) (last_listing u) (audio_state f)) x"
    "\<And>s b. muted_after (pactl_cmds (effects r)) s b =
       muted_after (commands f @ cs @ cleanup_audio (m_platform m) (last_listing u) (audio_state f)) s b"
    "\<And>p. Terminate p \<in> set (effects r) \<longleftrightarrow> (case p of Browser \<Rightarrow> browser_proc f \<noteq> None | Server \<Rightarrow> server_proc f \<noteq> None)"
    "\<And>p. Kill p \<in> set (effects r) \<longleftrightarrow> Terminate p \<in> set (effects r) \<and> \<not> in_time u p"
proof -
  obtain f cs where f: "start m (init_facade room d) = Some (f, None)"
    and cs: "run_host (env_of m (bar_width u) f) (happenings u) init_host = (h, cs)"
    and e: "effects r = map Pactl (commands f) @ interleave (schedule u)
       (map Pactl cs @ cleanup (m\<lparr>m_mics := last_listing u\<rparr>) (in_time u) f)
       (map Pactl (sync_audio_volume (m_platform m) (sync_raises u) (audio_state f) (sync_first u) (sync_events u)))"
    using assms by (rule run_cases)
  have sv: "\<forall>c \<in> set (sync_audio_volume (m_platform m) (sync_raises u) (audio_state f) (sync_first u) (sync_events u)). volume_cmd c"
    using sync_volume by blast
  note v = beside_volume [OF sv]
  have p: "Terminate p \<in> set (effects r) \<longleftrightarrow> (case p of Browser \<Rightarrow> browser_proc f \<noteq> None | Server \<Rightarrow> server_proc f \<noteq> None)" for p
    by (cases p) (simp_all add: e cleanup_def end_proc_def image_iff)
  have k: "Kill p \<in> set (effects r) \<longleftrightarrow> Terminate p \<in> set (effects r) \<and> \<not> in_time u p" for p
    by (cases p) (simp_all add: e cleanup_def end_proc_def image_iff)
  show thesis
    by (rule that [OF f cs _ _ p k]) (simp_all add: e v default_after_append pactl_cmds_cleanup)
qed

text \<open>The properties of reachable states of the host are those of every run of possible events.\<close>

lemma run_reachable:
  assumes "run m u (init_facade room d) = Some r" "last_host r = Some h"
    and "\<And>f. start m (init_facade room d) = Some (f, None) \<Longrightarrow> possible_run (env_of m (bar_width u) f) (happenings u) init_host"
  shows "\<exists>env. host_reach env mute h"
proof -
  obtain f cs where f: "start m (init_facade room d) = Some (f, None)"
      "run_host (env_of m (bar_width u) f) (happenings u) init_host = (h, cs)"
    using assms(1,2) by (rule run_cases)
  from run_host_reach [OF host_reach.init assms(3) [OF f(1)]] f(2) show ?thesis by auto
qed

lemma active_not_physical:
  "\<not> physical_source (get_active_audio_source (fst (setup_pipewire_audio p src sink res initial_audio)))"
proof -
  have e: "endswith (s @ ''.monitor'') ''.monitor''" for s
    by (simp add: endswith_def suffix_def)
  show ?thesis
    by (auto simp: setup_pipewire_audio_def get_active_audio_source_def initial_audio_def nonempty_def physical_source_def
        Let_def e split: option.splits prod.splits)
qed




definition sample_input :: session_input where
  "sample_input =
     \<lparr>happenings = [(Gui ClickMic, None), (Gui ClickSound, None)], bar_width = 400, sync_raises = (\<lambda>c. False),
      sync_first = None, sync_events = [], schedule = [], last_listing = None, in_time = (\<lambda>p. p = Browser), exit_code = 0\<rparr>"


text \<open>
  What a run does not undo: where the module of the virtual source could not be loaded, the sound
  button mutes the monitor of the sink, and the clean-up leaves it muted.
\<close>

lemma mute_keeps_other:
  "\<not> physical_source s \<Longrightarrow> muted_after (set_physical_mics_muted ''linux'' listing v m) s b = b"
  by (rule muted_after_other) (auto simp: mute_cmds set_source_mute_def)

lemma fallback_monitor_stays_muted:
  assumes "m_platform m = ''linux''" "m_default_source m = Some src" "m_default_sink m = Some sink" "strip sink \<noteq> []"
    and "m_load_module m = Some (rc, out)" "rc \<noteq> 0"
    and "run m u (init_facade room d) = Some r" "last_host r = Some h" "happenings u = [(Gui ClickSound, l)]"
  shows "muted_after (pactl_cmds (effects r)) (strip sink @ ''.monitor'') b"
proof -
  let ?mon = "strip sink @ ''.monitor''"
  obtain f cs where f: "start m (init_facade room d) = Some (f, None)"
    and cs: "run_host (env_of m (bar_width u) f) (happenings u) init_host = (h, cs)"
    and e: "\<And>s b. muted_after (pactl_cmds (effects r)) s b =
       muted_after (commands f @ cs @ cleanup_audio (m_platform m) (last_listing u) (audio_state f)) s b"
    by (rule run_after [OF assms(7,8)]) auto
  have p: "\<not> physical_source ?mon" by (simp add: physical_source_def endswith_def suffix_def)
  have v: "get_active_audio_source (audio_state f) = ?mon"
    using assms(6) by (simp add: start_linux(1) [OF assms(1) f] assms(2-5) setup_pipewire_audio_def get_active_audio_source_def nonempty_def Let_def)
  have "cs = set_physical_mics_muted ''linux'' l (audio_state f) False @ [set_source_mute ?mon True]"
    using cs v by (auto simp: assms(1,9) step_cmds_def gui_handle_def toggle_sound_def Let_def case_prod_beta env_of_def
        listed_mute_def init_host_def initial_bridge_def flag_def state_get_def update_app_state_def dict_update_def)
  then have "muted_after cs ?mon x = True" for x
    using mute_keeps_other [OF p] by (simp add: set_source_mute_def)
  moreover have "muted_after (cleanup_audio ''linux'' listing v) ?mon True = True" for listing v
    using mute_keeps_other [OF p] by (simp add: cleanup_audio_def)
  ultimately show ?thesis by (simp add: e assms(1))
qed

end
