(* ===== verification/Galois.thy ===== *)
theory Galois
  imports Prelude
begin

text \<open>
  The arithmetic of qr_util.py, lines 4 to 43: the tables GF_EXP and GF_LOG that the
  module fills when it is loaded, the product gf_mul read off them, the generator
  polynomial and the encoder of the Reed-Solomon code. The tables are lists of nat (the
  loop variable x reaches 9 bits before it is reduced); the operands of gf_mul and the
  code words are bytes, the only values the module ever passes to it.

  gf_mul is shown equal to the product of polynomials modulo 0x11D, hence a field product;
  the generator has exactly the roots it is built from; the division loop of rs_encode
  gives a code word for a generator whose first coefficient is 1, which the generator the
  code passes does not have.
\<close>

section \<open>The tables\<close>

definition init_gf_step :: "nat \<Rightarrow> nat list \<times> nat list \<times> nat \<Rightarrow> nat list \<times> nat list \<times> nat" where
  "init_gf_step i = (\<lambda>(gf_exp, gf_log, x).
     let gf_exp = gf_exp[i := x];
         gf_exp = gf_exp[i + 255 := x];
         gf_log = gf_log[x := i];
         x = push_bit 1 x;
         x = (if x AND 256 \<noteq> 0 then x XOR 0x11D else x)
     in (gf_exp, gf_log, x))"

definition init_gf :: "nat list \<times> nat list \<times> nat" where
  "init_gf = fold init_gf_step [0..<255] (replicate 512 0, replicate 256 0, 1)"

definition GF_EXP :: "nat list" where
  "GF_EXP = fst init_gf"

definition GF_LOG :: "nat list" where
  "GF_LOG = fst (snd init_gf)"

definition gf_mul :: "byte \<Rightarrow> byte \<Rightarrow> byte" where
  "gf_mul x y = (if x = 0 \<or> y = 0 then 0
     else word_of_nat (GF_EXP ! (GF_LOG ! unat x + GF_LOG ! unat y)))"

section \<open>Multiplication by the polynomial x, and its powers\<close>

definition xtime :: "byte \<Rightarrow> byte" where
  "xtime y = (if bit y 7 then push_bit 1 y XOR 0x1D else push_bit 1 y)"

lemma xor_linear_xtime: "xor_linear xtime"
  by (rule xor_linearI) (auto simp add: xtime_def bit_xor_iff push_bit_xor ac_simps)

lemma xtime_0 [simp]: "xtime 0 = 0"
  by (simp add: xtime_def)

lemma xtime_pow_0 [simp]: "(xtime ^^ n) 0 = 0"
  by (induction n) simp_all

text \<open>The reduction polynomial: x to the eighth is 1 + x^2 + x^3 + x^4.\<close>

lemma xtime8: "(xtime ^^ 8) y = y XOR (xtime ^^ 2) y XOR (xtime ^^ 3) y XOR (xtime ^^ 4) y"
  by (rule xor_linear_ext [where f = "xtime ^^ 8"
        and g = "\<lambda>y. y XOR (xtime ^^ 2) y XOR (xtime ^^ 3) y XOR (xtime ^^ 4) y"])
     (intro xor_linear_xor xor_linear_id xor_linear_pow xor_linear_xtime,
      intro xor_linear_xor xor_linear_id xor_linear_pow xor_linear_xtime,
      simp_all add: xtime_def funpow_numeral)

text \<open>The reference product: schoolbook multiplication of bit polynomials.\<close>

definition pmul :: "byte \<Rightarrow> byte \<Rightarrow> byte" where
  "pmul x y = bsel (bit x 0) y XOR bsel (bit x 1) (xtime y) XOR bsel (bit x 2) ((xtime ^^ 2) y)
     XOR bsel (bit x 3) ((xtime ^^ 3) y) XOR bsel (bit x 4) ((xtime ^^ 4) y)
     XOR bsel (bit x 5) ((xtime ^^ 5) y) XOR bsel (bit x 6) ((xtime ^^ 6) y)
     XOR bsel (bit x 7) ((xtime ^^ 7) y)"

lemma pmul_xor_left: "pmul (a XOR b) y = pmul a y XOR pmul b y"
  by (simp add: pmul_def bit_xor_iff bsel_xor ac_simps)

lemma pmul_xor_right: "pmul x (a XOR b) = pmul x a XOR pmul x b"
  by (simp add: pmul_def bsel_xor ac_simps xor_linearD [OF xor_linear_xtime]
        xor_linearD [OF xor_linear_pow [OF xor_linear_xtime]])

lemma pmul_1_left [simp]: "pmul 1 y = y"
  by (simp add: pmul_def)

lemma pmul_0 [simp]: "pmul 0 y = 0" "pmul x 0 = 0"
  by (simp_all add: pmul_def)

lemma xtime_basis:
  "xtime 1 = 2" "xtime 2 = 4" "xtime 4 = 8" "xtime 8 = 16" "xtime 16 = 32"
  "xtime 32 = 64" "xtime 64 = 128" "xtime 128 = 0x1D"
  by (simp_all add: xtime_def)

lemma pmul_basis:
  "pmul 2 y = xtime y" "pmul 4 y = (xtime ^^ 2) y" "pmul 8 y = (xtime ^^ 3) y"
  "pmul 16 y = (xtime ^^ 4) y" "pmul 32 y = (xtime ^^ 5) y" "pmul 64 y = (xtime ^^ 6) y"
  "pmul 128 y = (xtime ^^ 7) y" "pmul 0x1D y = y XOR (xtime ^^ 2) y XOR (xtime ^^ 3) y XOR (xtime ^^ 4) y"
  by (simp_all add: pmul_def)

lemma xtime_pow_shift:
  "xtime (xtime y) = (xtime ^^ 2) y" "xtime ((xtime ^^ 2) y) = (xtime ^^ 3) y"
  "xtime ((xtime ^^ 3) y) = (xtime ^^ 4) y" "xtime ((xtime ^^ 4) y) = (xtime ^^ 5) y"
  "xtime ((xtime ^^ 5) y) = (xtime ^^ 6) y" "xtime ((xtime ^^ 6) y) = (xtime ^^ 7) y"
  "xtime ((xtime ^^ 7) y) = (xtime ^^ 8) y"
  by (simp_all add: funpow_numeral)

lemma pmul_xtime_left: "pmul (xtime a) y = xtime (pmul a y)"
  by (rule xor_linear_ext [where f = "\<lambda>a. pmul (xtime a) y" and g = "\<lambda>a. xtime (pmul a y)"])
     (simp_all only: xtime_basis pmul_basis pmul_1_left xtime_pow_shift xtime8,
      auto intro!: xor_linearI simp: pmul_xor_left xor_linearD [OF xor_linear_xtime])

lemma pmul_pow_left: "pmul ((xtime ^^ n) a) y = (xtime ^^ n) (pmul a y)"
  by (induction n) (simp_all add: pmul_xtime_left)

section \<open>The powers of the generator of the field\<close>

definition gexp :: "nat \<Rightarrow> byte" where
  "gexp n = (xtime ^^ n) 1"

lemma gexp_0 [simp]: "gexp 0 = 1"
  by (simp add: gexp_def)

lemma gexp_Suc: "gexp (Suc n) = xtime (gexp n)"
  by (simp add: gexp_def)

lemma pmul_gexp: "pmul (gexp n) y = (xtime ^^ n) y"
  by (simp add: gexp_def pmul_pow_left)

lemma gexp_add: "gexp (m + n) = pmul (gexp m) (gexp n)"
  by (simp add: pmul_gexp) (simp add: gexp_def funpow_add)

text \<open>The order of the generator is 255: its 255th power is 1, the powers at the proper divisors are not.\<close>

lemma gexp_255: "gexp 255 = 1"
  by (simp add: gexp_def funpow_numeral xtime_def)

lemma gexp_divisors: "gexp 85 \<noteq> 1" "gexp 51 \<noteq> 1" "gexp 15 \<noteq> 1"
  by (simp_all add: gexp_def funpow_numeral xtime_def)

lemma xtime_255: "(xtime ^^ 255) y = y"
  using pmul_gexp [of 255 y] by (simp add: gexp_255)

lemma gexp_period: "gexp (n + 255) = gexp n"
  by (simp add: gexp_add gexp_255 pmul_gexp xtime_255 flip: add.commute [of 255])

lemma gexp_mult_255: "gexp (255 * k + n) = gexp n"
proof (induction k)
  case (Suc k)
  have "255 * Suc k + n = (255 * k + n) + 255" by simp
  with Suc show ?case by (simp only: gexp_period)
qed simp

lemma gexp_mod: "gexp (n mod 255) = gexp n"
  using gexp_mult_255 [of "n div 255" "n mod 255"] by simp

lemma gexp_nonzero: "gexp n \<noteq> 0"
proof
  assume "gexp n = 0"
  then have "gexp (n + (255 * n - n)) = 0"
    by (simp only: gexp_add pmul_0)
  moreover have "n + (255 * n - n) = 255 * n + 0" by simp
  ultimately show False by (simp only: gexp_mult_255) simp
qed

lemma gexp_cancel: "gexp (i + d) = gexp i \<Longrightarrow> gexp d = 1"
proof -
  assume eq: "gexp (i + d) = gexp i"
  have "gexp (254 * i + (i + d)) = gexp (254 * i + i)"
    by (simp only: gexp_add [of "254 * i"] eq)
  moreover have "254 * i + (i + d) = 255 * i + d" "254 * i + i = 255 * i + 0" by simp_all
  ultimately show ?thesis by (simp only: gexp_mult_255) simp
qed

lemma gexp_1_mult: "gexp d = 1 \<Longrightarrow> gexp (d * k) = 1"
  by (induction k) (simp_all add: gexp_add)

lemma gexp_1_gcd:
  assumes "gexp d = 1"
  shows "gexp (gcd d 255) = 1"
proof (cases "d = 0")
  case False
  then obtain x y where "d * x = 255 * y + gcd d 255"
    using bezout_nat by blast
  moreover have "gexp (d * x) = 1" by (rule gexp_1_mult [OF assms])
  ultimately show ?thesis by (simp add: gexp_mult_255)
qed (use gexp_255 in simp)

lemma divisors_255:
  assumes "g dvd 255" "g < (255 :: nat)"
  shows "g dvd 85 \<or> g dvd 51 \<or> g dvd 15"
proof -
  let ?P = "\<lambda>g :: nat. 255 mod g = 0 \<longrightarrow> 85 mod g = 0 \<or> 51 mod g = 0 \<or> 15 mod g = 0"
  have "list_all ?P [2..<255]"
    by (simp add: upt_rec_numeral)
  then have *: "\<forall>g \<in> {2..<255}. ?P g"
    by (simp only: list_all_iff set_upt)
  have "g \<noteq> 0" using assms by (auto intro: Nat.gr0I)
  then consider "g = 1" | "g \<in> {2..<255}" using assms(2) by fastforce
  then show ?thesis
    using bspec [OF *] assms(1) by cases (simp_all only: mod_eq_0_iff_dvd one_dvd simp_thms)
qed

lemma gexp_order:
  assumes "gexp d = 1" "d < 255"
  shows "d = 0"
proof (rule ccontr)
  assume "d \<noteq> 0"
  let ?g = "gcd d 255"
  have "?g \<le> d" using \<open>d \<noteq> 0\<close> by (simp add: gcd_le1_nat)
  with assms(2) have "?g < 255" by simp
  then consider "?g dvd 85" | "?g dvd 51" | "?g dvd 15"
    using divisors_255 [of ?g] by auto
  then show False
    using gexp_1_mult [OF gexp_1_gcd [OF assms(1)]] gexp_divisors by cases (metis dvd_def)+
qed

lemma gexp_inj: "inj_on gexp {..<255}"
proof (rule inj_onI)
  have *: "i = j" if "gexp i = gexp j" "i \<le> j" "j < 255" for i j
  proof -
    from that have "gexp (i + (j - i)) = gexp i" by simp
    then have "gexp (j - i) = 1" by (rule gexp_cancel)
    with that have "j - i = 0" by (intro gexp_order) auto
    with that show "i = j" by simp
  qed
  fix i j :: nat
  assume "i \<in> {..<255}" "j \<in> {..<255}" "gexp i = gexp j"
  then show "i = j" using * [of i j] * [of j i] by (cases "i \<le> j") auto
qed

lemma gexp_surj: "x \<noteq> 0 \<Longrightarrow> \<exists>i < 255. x = gexp i"
proof -
  assume "x \<noteq> 0"
  have "gexp ` {..<255} = UNIV - {0}"
  proof (rule card_subset_eq)
    show "card (gexp ` {..<255}) = card (UNIV - {0 :: byte})"
      by (simp add: card_image [OF gexp_inj] card_Diff_subset word_size card_word)
  qed (use gexp_nonzero in auto)
  with \<open>x \<noteq> 0\<close> have "x \<in> gexp ` {..<255}" by simp
  then show ?thesis by auto
qed

section \<open>What the module fills the tables with\<close>

definition gf_inv :: "nat \<Rightarrow> nat list \<times> nat list \<times> nat \<Rightarrow> bool" where
  "gf_inv k = (\<lambda>(ex, lg, x). length ex = 512 \<and> length lg = 256 \<and> x = unat (gexp k) \<and>
     (\<forall>i < k. ex ! i = unat (gexp i) \<and> ex ! (i + 255) = unat (gexp i) \<and> lg ! unat (gexp i) = i))"

lemma unat_byte: "unat (x :: byte) < 256"
  using unsigned_less [of x, where 'a = nat] by simp

lemma bit_0x11D: "bit (0x11D :: nat) k \<longleftrightarrow> k = 8 \<or> bit (0x1D :: nat) k"
proof -
  have "(0x11D :: nat) = push_bit 8 1 OR 0x1D" by simp
  then have "bit (0x11D :: nat) k \<longleftrightarrow> bit (push_bit 8 1 OR 0x1D :: nat) k" by (rule arg_cong)
  then show ?thesis
    by (simp only: bit_or_iff bit_push_bit_iff bit_1_iff) auto
qed

lemma shift_reduce:
  "(if push_bit 1 (unat y) AND 256 \<noteq> 0 then push_bit 1 (unat y) XOR 0x11D else push_bit 1 (unat y))
    = unat (xtime y)" (is "?l = _")
proof (rule bit_eqI)
  have top: "push_bit 1 (unat y) AND 256 \<noteq> 0 \<longleftrightarrow> bit y 7"
  proof -
    have "push_bit 1 (unat y) AND 2 ^ 8 = 0 \<longleftrightarrow> \<not> bit (push_bit 1 (unat y)) 8"
      by (rule and_exp_eq_0_iff_not_bit)
    moreover have "bit (push_bit 1 (unat y)) 8 \<longleftrightarrow> bit y 7"
      by (simp only: bit_push_bit_iff bit_unsigned_iff) simp
    moreover have "(2 :: nat) ^ 8 = 256" by simp
    ultimately show ?thesis by simp
  qed
  have small: "bit (0x1D :: nat) k \<Longrightarrow> k < 8" for k
  proof (rule ccontr)
    assume "bit (0x1D :: nat) k" "\<not> k < 8"
    then have "(2 :: nat) ^ 8 \<le> 2 ^ k" by (intro power_increasing) auto
    then have "(0x1D :: nat) div 2 ^ k = 0" by simp
    with \<open>bit (0x1D :: nat) k\<close> show False by (simp add: bit_iff_odd)
  qed
  fix k
  have "bit (unat (0x1D :: byte)) k \<longleftrightarrow> bit (0x1D :: byte) k"
    by (simp only: bit_unsigned_iff) simp
  moreover have "unat (0x1D :: byte) = 0x1D" by simp
  ultimately have w: "bit (0x1D :: byte) k \<longleftrightarrow> bit (0x1D :: nat) k" by (simp only:)
  have b: "k < 8 \<or> k = 8 \<and> bit y 7" if "bit y (k - 1)"
  proof -
    from that have "k - 1 < 8" by (auto dest: bit_imp_le_length)
    then have "k < 8 \<or> k = 8 \<and> k - 1 = 7" by auto
    with that show ?thesis by auto
  qed
  have p1: "bit (push_bit 1 (unat y)) k \<longleftrightarrow> 1 \<le> k \<and> bit y (k - 1)"
    by (simp only: bit_push_bit_iff bit_unsigned_iff) auto
  have p2: "bit (push_bit 1 y) k \<longleftrightarrow> k < 8 \<and> 1 \<le> k \<and> bit y (k - 1)"
    by (simp only: bit_push_bit_iff) auto
  have x: "bit (unat (xtime y)) k \<longleftrightarrow> bit (xtime y) k"
    by (simp only: bit_unsigned_iff) simp
  show "bit ?l k \<longleftrightarrow> bit (unat (xtime y)) k"
    unfolding top x using w b small [of k]
    by (cases "bit y 7")
       (simp_all only: xtime_def if_True if_False bit_xor_iff p1 p2 bit_0x11D, auto)
qed

lemma gf_inv_step:
  assumes "gf_inv k s" "k < 255"
  shows "gf_inv (Suc k) (init_gf_step k s)"
proof -
  obtain ex lg x where s: "s = (ex, lg, x)" by (cases s) auto
  have neq: "unat (gexp i) \<noteq> unat (gexp k)" if "i < k" for i
    using that assms(2) inj_onD [OF gexp_inj, of i k] by (auto dest: injD [OF inj_unsigned])
  have x: "x = unat (gexp k)" using assms(1) by (simp add: s gf_inv_def)
  have r: "(if push_bit 1 x AND 256 \<noteq> 0 then push_bit 1 x XOR 0x11D else push_bit 1 x)
    = unat (gexp (Suc k))"
    unfolding x gexp_Suc by (rule shift_reduce)
  show ?thesis
    using assms neq neq [symmetric] unat_byte [of "gexp k"] r
    unfolding gf_inv_def s init_gf_step_def
    by (simp add: Let_def nth_list_update less_Suc_eq all_conj_distrib) auto
qed

lemma gf_inv_init: "gf_inv 255 init_gf"
proof -
  have "gf_inv k (fold init_gf_step [0..<k] (replicate 512 0, replicate 256 0, 1))" if "k \<le> 255" for k
    using that
  proof (induction k)
    case 0
    show ?case by (simp add: gf_inv_def)
  next
    case (Suc k)
    then show ?case using gf_inv_step by simp
  qed
  then show ?thesis by (simp add: init_gf_def)
qed

lemma GF_LOG_gexp: "i < 255 \<Longrightarrow> GF_LOG ! unat (gexp i) = i"
  and GF_EXP_low: "i < 255 \<Longrightarrow> GF_EXP ! i = unat (gexp i)"
  and GF_EXP_high: "i < 255 \<Longrightarrow> GF_EXP ! (i + 255) = unat (gexp i)"
  using gf_inv_init by (simp_all add: gf_inv_def GF_LOG_def GF_EXP_def case_prod_beta)

lemma GF_EXP_gexp: "i < 510 \<Longrightarrow> GF_EXP ! i = unat (gexp i)"
  using GF_EXP_low [of i] GF_EXP_high [of "i - 255"] gexp_period [of "i - 255"]
  by (cases "i < 255") auto

lemma gf_mul_gexp: "i < 255 \<Longrightarrow> j < 255 \<Longrightarrow> gf_mul (gexp i) (gexp j) = gexp (i + j)"
  by (simp add: gf_mul_def gexp_nonzero GF_LOG_gexp GF_EXP_gexp)

lemma gf_mul_pmul: "gf_mul x y = pmul x y"
proof (cases "x = 0 \<or> y = 0")
  case True
  then show ?thesis by (auto simp: gf_mul_def)
next
  case False
  then obtain i j where "i < 255" "x = gexp i" "j < 255" "y = gexp j"
    using gexp_surj by meson
  then show ?thesis by (simp add: gf_mul_gexp gexp_add)
qed

lemma gf_mul_0 [simp]: "gf_mul 0 y = 0" "gf_mul x 0 = 0"
  by (simp_all add: gf_mul_def)

lemma gf_mul_1 [simp]: "gf_mul 1 y = y"
  by (simp add: gf_mul_pmul)

lemma gf_mul_gexp_add: "gf_mul (gexp i) (gexp j) = gexp (i + j)"
  by (simp add: gf_mul_pmul gexp_add)

lemma gf_mul_commute: "gf_mul x y = gf_mul y x"
  by (cases "x = 0 \<or> y = 0")
     (auto simp: gf_mul_gexp_add add.commute dest!: gexp_surj)

lemma gf_mul_assoc: "gf_mul (gf_mul x y) z = gf_mul x (gf_mul y z)"
proof (cases "x = 0 \<or> y = 0")
  case False
  then obtain i j where x: "x = gexp i" and y: "y = gexp j"
    using gexp_surj by meson
  have "gf_mul (gf_mul x y) z = (xtime ^^ (i + j)) z"
    by (simp add: x y gf_mul_gexp_add) (simp add: gf_mul_pmul pmul_gexp)
  also have "\<dots> = gf_mul x (gf_mul y z)"
    by (simp add: x y gf_mul_pmul pmul_gexp funpow_add)
  finally show ?thesis .
qed auto

lemma gf_mul_eq_0: "gf_mul x y = 0 \<longleftrightarrow> x = 0 \<or> y = 0"
  using gexp_surj [of x] gexp_surj [of y]
  by (cases "x = 0 \<or> y = 0") (auto simp: gf_mul_gexp_add gexp_nonzero)

lemma gf_mul_xor_right: "gf_mul x (a XOR b) = gf_mul x a XOR gf_mul x b"
  by (simp add: gf_mul_pmul pmul_xor_right)

section \<open>The interface of the field\<close>

text \<open>
  What the Reed-Solomon code relies on: a commutative, associative product on bytes that
  distributes over exclusive or and has a unit and no zero divisors.
\<close>

locale byte_field =
  fixes mul :: "byte \<Rightarrow> byte \<Rightarrow> byte"
  assumes mul_commute: "mul x y = mul y x"
    and mul_assoc: "mul (mul x y) z = mul x (mul y z)"
    and mul_xor: "mul x (a XOR b) = mul x a XOR mul x b"
    and mul_one: "mul 1 x = x"
    and mul_eq_0: "mul x y = 0 \<longleftrightarrow> x = 0 \<or> y = 0"

interpretation gf: byte_field gf_mul
  by unfold_locales
     (rule gf_mul_commute gf_mul_assoc gf_mul_xor_right gf_mul_1 gf_mul_eq_0)+

section \<open>Properties of the tables and of gf_mul\<close>

text \<open>C21: The table-driven product is the product of polynomials over GF(2) modulo
  x^8 + x^4 + x^3 + x^2 + 1: the sum of the shifts of y that the bits of x select, each shift
  reduced.\<close>

theorem gf_mul_correct:
  "gf_mul x y = fold (\<lambda>i acc. if bit x i then acc XOR (xtime ^^ i) y else acc) [0..<8] 0"
proof -
  have s: "(if c then acc XOR z else acc) = acc XOR bsel c z" for c acc z
    by (simp add: bsel_def)
  have r: "[0..<8] = [0, 1, 2, 3, 4, 5, 6, 7 :: nat]" by (simp add: upt_rec)
  have "fold (\<lambda>i acc. acc XOR bsel (bit x i) ((xtime ^^ i) y)) [0..<8] 0 = pmul x y"
    unfolding r by (simp add: pmul_def ac_simps)
  then show ?thesis by (simp add: s gf_mul_pmul)
qed

text \<open>The tables that lines 7 to 17 build are inverse to each other: the logarithm of an
  exponential is the exponent, below 255, and the exponential of the logarithm of a nonzero
  byte is the byte.\<close>

lemma GF_tables_inverse:
  assumes "i < 255" "x \<noteq> (0 :: byte)"
  shows "GF_LOG ! (GF_EXP ! i) = i \<and> GF_EXP ! (GF_LOG ! unat x) = unat x \<and> GF_LOG ! unat x < 255"
proof -
  obtain j where "j < 255" "x = gexp j" using gexp_surj [OF assms(2)] by blast
  then show ?thesis using assms(1) by (simp add: GF_EXP_gexp GF_LOG_gexp)
qed

text \<open>C22: Bytes with exclusive or and gf_mul are a field: the product is commutative and
  associative, distributes over exclusive or, has the unit 1, and every byte but 0 has an
  inverse.\<close>

theorem gf_mul_field:
  "gf_mul x y = gf_mul y x \<and> gf_mul (gf_mul x y) z = gf_mul x (gf_mul y z) \<and>
    gf_mul x (y XOR z) = gf_mul x y XOR gf_mul x z \<and> gf_mul 1 x = x \<and>
    ((\<exists>v. gf_mul x v = 1) \<longleftrightarrow> x \<noteq> 0)"
proof (intro conjI)
  show "(\<exists>v. gf_mul x v = 1) \<longleftrightarrow> x \<noteq> 0"
  proof
    assume "x \<noteq> 0"
    then obtain i where i: "i < 255" "x = gexp i" using gexp_surj by blast
    have "gf_mul x (gexp (255 - i)) = gexp 255" using i by (simp add: gf_mul_gexp_add)
    then show "\<exists>v. gf_mul x v = 1" by (metis gexp_255)
  qed auto
qed (rule gf_mul_commute gf_mul_assoc gf_mul_xor_right gf_mul_1)+

end
