(* ===== verification/Reed_Solomon.thy ===== *)
theory Reed_Solomon
  imports Galois
begin

text \<open>
  The Reed-Solomon part of qr_util.py: rs_generator_poly (lines 24 to 33) and rs_encode
  (lines 35 to 43). The loops over indices are folds over the same index lists, the in-place
  updates are list updates.

  Polynomials over the field are lists of coefficients, the constant term first (poly_eval);
  a code word is read the other way round, its first symbol being the coefficient of the
  highest power (word_eval).
\<close>

section \<open>Polynomials over a byte field\<close>

fun poly_eval :: "(byte \<Rightarrow> byte \<Rightarrow> byte) \<Rightarrow> byte list \<Rightarrow> byte \<Rightarrow> byte" where
  "poly_eval mul [] x = 0"
| "poly_eval mul (c # cs) x = c XOR mul x (poly_eval mul cs x)"

definition word_eval :: "(byte \<Rightarrow> byte \<Rightarrow> byte) \<Rightarrow> byte list \<Rightarrow> byte \<Rightarrow> byte" where
  "word_eval mul cs x = poly_eval mul (rev cs) x"

definition xor_list :: "byte list \<Rightarrow> byte list \<Rightarrow> byte list" where
  "xor_list xs ys = map2 (XOR) xs ys"

lemma length_xor_list [simp]: "length (xor_list xs ys) = min (length xs) (length ys)"
  by (simp add: xor_list_def)

lemma nth_xor_list [simp]:
  "i < length xs \<Longrightarrow> i < length ys \<Longrightarrow> xor_list xs ys ! i = xs ! i XOR ys ! i"
  by (simp add: xor_list_def)

lemma xor_list_simps [simp]:
  "xor_list [] ys = []" "xor_list xs [] = []"
  "xor_list (x # xs) (y # ys) = (x XOR y) # xor_list xs ys"
  by (simp_all add: xor_list_def)

lemma rev_xor_list: "length xs = length ys \<Longrightarrow> rev (xor_list xs ys) = xor_list (rev xs) (rev ys)"
  by (simp add: xor_list_def rev_map zip_rev)

context byte_field
begin

lemma mul_0 [simp]: "mul x 0 = 0" "mul 0 x = 0"
  by (simp_all add: mul_eq_0)

lemma mul_xor_left: "mul (a XOR b) x = mul a x XOR mul b x"
  by (simp only: mul_commute [of _ x] mul_xor)

lemma mul_left_commute: "mul x (mul y z) = mul y (mul x z)"
  by (metis mul_assoc mul_commute)

lemma poly_eval_xor:
  "length p = length q \<Longrightarrow> poly_eval mul (xor_list p q) x = poly_eval mul p x XOR poly_eval mul q x"
  by (induction p q rule: list_induct2) (simp_all add: mul_xor ac_simps)

lemma poly_eval_scale: "poly_eval mul (map (mul c) p) x = mul c (poly_eval mul p x)"
  by (induction p) (simp_all add: mul_xor mul_left_commute)

lemma poly_eval_zeros: "poly_eval mul (replicate n 0) x = 0"
  by (induction n) simp_all

lemma poly_eval_append:
  "poly_eval mul (p @ q) x = poly_eval mul p x XOR (mul x ^^ length p) (poly_eval mul q x)"
  by (induction p) (simp_all add: mul_xor xor.assoc)

lemma poly_eval_snoc_zeros: "poly_eval mul (p @ replicate n 0) x = poly_eval mul p x"
proof -
  have "(mul x ^^ k) 0 = 0" for k by (induction k) simp_all
  then show ?thesis by (simp add: poly_eval_append poly_eval_zeros)
qed

text \<open>Multiplying a polynomial by a linear factor with root r.\<close>

lemma poly_eval_linear_factor:
  "poly_eval mul (xor_list (map (\<lambda>c. mul c r) p @ [0]) (0 # p)) x = mul (x XOR r) (poly_eval mul p x)"
proof -
  have "poly_eval mul (map (\<lambda>c. mul c r) p @ [0]) x = mul r (poly_eval mul p x)"
    using poly_eval_snoc_zeros [of "map (\<lambda>c. mul c r) p" 1] poly_eval_scale [of r p]
    by (simp add: mul_commute [of _ r])
  then show ?thesis
    by (simp add: poly_eval_xor mul_xor_left xor.commute)
qed

lemma word_eval_xor:
  "length p = length q \<Longrightarrow> word_eval mul (xor_list p q) x = word_eval mul p x XOR word_eval mul q x"
  by (simp add: word_eval_def rev_xor_list poly_eval_xor)

lemma word_eval_leading_zeros: "word_eval mul (replicate n 0 @ p) x = word_eval mul p x"
  by (simp add: word_eval_def poly_eval_snoc_zeros)

text \<open>A multiple of a word, shifted into a longer word of zeros, vanishes where the word does.\<close>

lemma word_eval_shifted:
  assumes "word_eval mul g x = 0"
  shows "word_eval mul (replicate i 0 @ map (\<lambda>c. mul c a) g @ replicate k 0) x = 0"
proof -
  have "poly_eval mul (map (\<lambda>c. mul c a) (rev g)) x = 0"
    using assms poly_eval_scale [of a "rev g"]
    by (simp add: word_eval_def mul_commute [of _ a])
  moreover have "(mul x ^^ k) 0 = 0" for k by (induction k) simp_all
  ultimately show ?thesis
    by (simp add: word_eval_def rev_map poly_eval_append poly_eval_zeros)
qed

end

section \<open>The generator polynomial\<close>

definition gen_inner :: "byte list \<Rightarrow> byte \<Rightarrow> nat \<Rightarrow> byte list \<Rightarrow> byte list" where
  "gen_inner poly root j next_poly =
     (let next_poly = next_poly[j := next_poly ! j XOR gf_mul (poly ! j) root]
      in next_poly[j + 1 := next_poly ! (j + 1) XOR poly ! j])"

definition gen_step :: "nat \<Rightarrow> byte list \<Rightarrow> byte list" where
  "gen_step i poly =
     (let next_poly = replicate (length poly + 1) 0;
          root = word_of_nat (GF_EXP ! i)
      in fold (gen_inner poly root) [0..<length poly] next_poly)"

definition rs_generator_poly :: "nat \<Rightarrow> byte list" where
  "rs_generator_poly degree = fold gen_step [0..<degree] [1]"

lemma length_gen_inner [simp]: "length (gen_inner p r j q) = length q"
  by (simp add: gen_inner_def Let_def)

lemma length_fold_gen_inner [simp]: "length (fold (gen_inner p r) js q) = length q"
  by (induction js arbitrary: q) simp_all

lemma length_gen_step [simp]: "length (gen_step i p) = length p + 1"
  by (simp add: gen_step_def Let_def)

lemma length_rs_generator_poly [simp]: "length (rs_generator_poly n) = n + 1"
  by (induction n) (simp_all add: rs_generator_poly_def)

lemma nth_gen_inner:
  "j + 1 < length q \<Longrightarrow> k < length q \<Longrightarrow> gen_inner p r j q ! k =
    (if k = j then q ! k XOR gf_mul (p ! j) r else if k = j + 1 then q ! k XOR p ! j else q ! k)"
  by (simp add: gen_inner_def Let_def nth_list_update)

lemma nth_fold_gen_inner:
  assumes "n \<le> length p" "k \<le> length p"
  shows "fold (gen_inner p r) [0..<n] (replicate (length p + 1) 0) ! k =
    (if k < n then gf_mul (p ! k) r else 0) XOR (if 0 < k \<and> k \<le> n then p ! (k - 1) else 0)"
  using assms
proof (induction n)
  case (Suc n)
  then show ?case
    by (simp add: nth_gen_inner del: replicate.simps) (auto simp: less_Suc_eq ac_simps)
qed (auto simp: nth_Cons')

lemma gen_step_eq:
  "gen_step i p = xor_list (map (\<lambda>c. gf_mul c (word_of_nat (GF_EXP ! i))) p @ [0]) (0 # p)"
proof (rule nth_equalityI)
  fix k
  assume "k < length (gen_step i p)"
  then have "k \<le> length p" by simp
  then show "gen_step i p ! k =
      xor_list (map (\<lambda>c. gf_mul c (word_of_nat (GF_EXP ! i))) p @ [0]) (0 # p) ! k"
    unfolding gen_step_def Let_def
    by (subst nth_fold_gen_inner) (auto simp: nth_append nth_Cons' not_less)
qed simp

text \<open>
  The value of the generator is the product of the differences to the powers of the field's
  generator: it vanishes at these powers and nowhere else.
\<close>

lemma poly_eval_gen_step:
  "i < 510 \<Longrightarrow> poly_eval gf_mul (gen_step i p) x = gf_mul (x XOR gexp i) (poly_eval gf_mul p x)"
  by (simp add: gen_step_eq gf.poly_eval_linear_factor GF_EXP_gexp)

lemma rs_generator_poly_0: "rs_generator_poly 0 = [1]"
  by (simp add: rs_generator_poly_def)

lemma rs_generator_poly_Suc: "rs_generator_poly (Suc n) = gen_step n (rs_generator_poly n)"
  by (simp add: rs_generator_poly_def)

lemma rs_generator_poly_roots:
  assumes "n \<le> 510"
  shows "poly_eval gf_mul (rs_generator_poly n) x = 0 \<longleftrightarrow> (\<exists>i < n. x = gexp i)"
  using assms
proof (induction n)
  case 0
  show ?case by (simp add: rs_generator_poly_0)
next
  case (Suc n)
  have "x XOR gexp n = 0 \<longleftrightarrow> x = gexp n"
    by (rule xor_eq_0_iff)
  with Suc show ?case
    by (auto simp: rs_generator_poly_Suc poly_eval_gen_step gf_mul_eq_0 less_Suc_eq)
qed

text \<open>The leading coefficient 1 stands at the end of the list, the constant term at its front.\<close>

lemma rs_generator_poly_last: "rs_generator_poly n ! n = 1"
proof (induction n)
  case (Suc n)
  then show ?case by (simp add: rs_generator_poly_Suc gen_step_eq nth_append)
qed (simp add: rs_generator_poly_0)

lemma rs_generator_poly_const: "n \<le> 510 \<Longrightarrow> rs_generator_poly n ! 0 = gexp (\<Sum>i < n. i)"
proof (induction n)
  case (Suc n)
  have "rs_generator_poly (Suc n) ! 0 = gf_mul (rs_generator_poly n ! 0) (gexp n)"
    using Suc.prems
    by (simp add: rs_generator_poly_Suc gen_step_eq nth_append GF_EXP_gexp)
  with Suc show ?case by (simp add: gf_mul_gexp_add)
qed (simp add: rs_generator_poly_0)

section \<open>The encoder\<close>

definition rs_step :: "byte list \<Rightarrow> nat \<Rightarrow> byte list \<Rightarrow> byte list" where
  "rs_step gen i msg =
     (let coef = msg ! i
      in if coef \<noteq> 0
         then xor_into i (\<lambda>j. gf_mul (gen ! j) coef) [0..<length gen] msg
         else msg)"

definition rs_divide :: "byte list \<Rightarrow> byte list \<Rightarrow> nat \<Rightarrow> byte list" where
  "rs_divide gen data num_ec_bytes =
     (let msg = data @ replicate num_ec_bytes 0;
          msg = fold (rs_step gen) [0..<length data] msg
      in drop (length data) msg)"

definition rs_encode :: "byte list \<Rightarrow> nat \<Rightarrow> byte list" where
  "rs_encode data num_ec_bytes =
     (let gen = rs_generator_poly num_ec_bytes in rs_divide gen data num_ec_bytes)"

lemma length_rs_step [simp]: "length (rs_step gen i msg) = length msg"
  by (simp add: rs_step_def Let_def)

lemma length_fold_rs_step [simp]: "length (fold (rs_step gen) is msg) = length msg"
  by (induction "is" arbitrary: msg) simp_all

lemma length_rs_encode [simp]: "length (rs_encode data n) = n"
  by (simp add: rs_encode_def rs_divide_def Let_def)

lemma nth_rs_step:
  assumes "i + length gen \<le> length msg" "k < length msg"
  shows "rs_step gen i msg ! k =
    (if i \<le> k \<and> k < i + length gen then msg ! k XOR gf_mul (gen ! (k - i)) (msg ! i) else msg ! k)"
  using assms by (simp add: rs_step_def Let_def loop_simps)

text \<open>One step of the division adds a shifted multiple of the divisor.\<close>

lemma rs_step_eq:
  assumes "i + length gen \<le> length msg"
  shows "rs_step gen i msg = xor_list msg
    (replicate i 0 @ map (\<lambda>c. gf_mul c (msg ! i)) gen @ replicate (length msg - i - length gen) 0)"
  using assms by (intro nth_equalityI) (auto simp: nth_rs_step nth_append)

lemma rs_step_word_eval:
  assumes "i + length gen \<le> length msg" "word_eval gf_mul gen x = 0"
  shows "word_eval gf_mul (rs_step gen i msg) x = word_eval gf_mul msg x"
  using assms by (simp add: rs_step_eq gf.word_eval_xor gf.word_eval_shifted)

lemma fold_rs_step_word_eval:
  assumes "k + length gen \<le> length msg + 1" "word_eval gf_mul gen x = 0"
  shows "word_eval gf_mul (fold (rs_step gen) [0..<k] msg) x = word_eval gf_mul msg x"
  using assms by (induction k) (simp_all add: rs_step_word_eval)

lemma fold_rs_step_zeros:
  assumes "k + length gen \<le> length msg + 1" "gen \<noteq> []" "gen ! 0 = 1" "p < k"
  shows "fold (rs_step gen) [0..<k] msg ! p = 0"
  using assms
proof (induction k)
  case (Suc k)
  have "gf_mul (gen ! 0) c = c" for c by (simp add: Suc.prems)
  moreover have "k < length msg" using Suc.prems by (cases gen) auto
  ultimately show ?case using Suc
    by (cases "p = k") (simp_all add: nth_rs_step)
qed simp

text \<open>
  With a divisor whose first coefficient is 1, data and remainder together vanish wherever
  the divisor does: the division loop is the systematic encoder.
\<close>

lemma rs_divide_zeros:
  assumes "length gen = n + 1" "gen ! 0 = 1"
  shows "fold (rs_step gen) [0..<length data] (data @ replicate n 0) =
    replicate (length data) 0 @ rs_divide gen data n" (is "?m = _")
proof -
  have "take (length data) ?m = replicate (length data) 0"
    using assms by (intro nth_equalityI) (auto intro!: fold_rs_step_zeros)
  moreover have "drop (length data) ?m = rs_divide gen data n"
    by (simp add: rs_divide_def Let_def)
  ultimately show ?thesis by (metis append_take_drop_id)
qed

lemma length_rs_divide [simp]: "length (rs_divide gen data n) = n"
  by (simp add: rs_divide_def Let_def)

lemma rs_divide_codeword:
  assumes "length gen = n + 1" "gen ! 0 = 1" "word_eval gf_mul gen x = 0"
  shows "word_eval gf_mul (data @ rs_divide gen data n) x = 0"
proof -
  let ?r = "replicate (length data) 0 @ rs_divide gen data n"
  have "word_eval gf_mul ?r x = word_eval gf_mul (data @ replicate n 0) x"
    unfolding rs_divide_zeros [OF assms(1,2), symmetric]
    by (rule fold_rs_step_word_eval) (use assms in simp_all)
  moreover have "data @ rs_divide gen data n = xor_list (data @ replicate n 0) ?r"
    by (intro nth_equalityI) (auto simp: nth_append)
  ultimately show ?thesis
    by (simp add: gf.word_eval_xor)
qed

lemma rs_step_xor_list:
  assumes "i + length gen \<le> length a" "length a = length b"
  shows "rs_step gen i (xor_list a b) = xor_list (rs_step gen i a) (rs_step gen i b)"
  using assms
  by (intro nth_equalityI) (auto simp: nth_rs_step gf_mul_xor_right ac_simps)

lemma fold_rs_step_xor_list:
  assumes "k + length gen \<le> length a + 1" "length a = length b"
  shows "fold (rs_step gen) [0..<k] (xor_list a b) =
    xor_list (fold (rs_step gen) [0..<k] a) (fold (rs_step gen) [0..<k] b)"
  using assms by (induction k) (simp_all add: rs_step_xor_list)

lemma xor_list_append:
  "length a = length b \<Longrightarrow> xor_list (a @ c) (b @ d) = xor_list a b @ xor_list c d"
  by (simp add: xor_list_def)

lemma xor_list_zeros: "xor_list (replicate n 0) (replicate n 0) = replicate n 0"
  by (simp add: xor_list_def zip_replicate)

lemma drop_xor_list: "drop k (xor_list a b) = xor_list (drop k a) (drop k b)"
  by (simp add: xor_list_def drop_map drop_zip)

lemma rs_encode_linear:
  assumes "length a = length b"
  shows "rs_encode (xor_list a b) n = xor_list (rs_encode a n) (rs_encode b n)"
proof -
  let ?z = "replicate n (0 :: byte)"
  have "xor_list a b @ ?z = xor_list (a @ ?z) (b @ ?z)"
    using assms by (simp add: xor_list_append xor_list_zeros)
  with assms show ?thesis
    by (simp add: rs_encode_def rs_divide_def Let_def fold_rs_step_xor_list drop_xor_list)
qed

text \<open>A message whose only nonzero symbol is its last one.\<close>

lemma fold_rs_step_skip:
  "k \<le> m \<Longrightarrow> fold (rs_step gen) [0..<k] (replicate m 0 @ msg) = replicate m 0 @ msg"
  by (induction k) (simp_all add: rs_step_def nth_append)

lemma rs_encode_last_symbol:
  "rs_encode (replicate m 0 @ [d]) n = map (\<lambda>c. gf_mul c d) (tl (rs_generator_poly n))"
proof -
  let ?g = "rs_generator_poly n" and ?msg = "replicate m 0 @ d # replicate n 0"
  have g: "?g \<noteq> []" by (metis length_rs_generator_poly list.size(3) add_is_0 one_neq_zero)
  have "rs_encode (replicate m 0 @ [d]) n = drop (Suc m) (rs_step ?g m ?msg)"
    by (simp add: rs_encode_def rs_divide_def Let_def fold_rs_step_skip)
  also have "rs_step ?g m ?msg = xor_list ?msg (replicate m 0 @ map (\<lambda>c. gf_mul c d) ?g)"
    by (subst rs_step_eq) (simp_all add: nth_append)
  also have "\<dots> = replicate m 0 @ xor_list (d # replicate n 0) (map (\<lambda>c. gf_mul c d) ?g)"
    by (simp add: xor_list_append xor_list_zeros)
  also have "drop (Suc m) \<dots> = tl (xor_list (d # replicate n 0) (map (\<lambda>c. gf_mul c d) ?g))"
    by (simp add: drop_Suc)
  also have "\<dots> = map (\<lambda>c. gf_mul c d) (tl ?g)"
    using g length_rs_generator_poly [of n] by (cases ?g) (auto intro!: nth_equalityI)
  finally show ?thesis .
qed

context byte_field
begin

lemma word_eval_Cons_at_1: "word_eval mul (c # cs) 1 = c XOR word_eval mul cs 1"
proof -
  have "(mul 1 ^^ k) z = z" for k z by (induction k) (simp_all add: mul_one)
  then show ?thesis by (simp add: word_eval_def poly_eval_append xor.commute)
qed

lemma word_eval_at_1: "word_eval mul cs 1 = poly_eval mul cs 1"
proof (induction cs)
  case Nil
  show ?case by (simp add: word_eval_def)
qed (simp add: word_eval_Cons_at_1 mul_one)

end

text \<open>
  The value of such a code word at the first root of the generator: it is 0 only when the
  constant term of the generator, which the loop takes for the leading one, is 1.
\<close>

lemma rs_encode_last_symbol_syndrome:
  assumes "0 < n" "n \<le> 510"
  shows "word_eval gf_mul ((replicate m 0 @ [d]) @ rs_encode (replicate m 0 @ [d]) n) (gexp 0) =
    gf_mul d (1 XOR gexp (\<Sum>i < n. i))"
proof -
  obtain g0 gs where g: "rs_generator_poly n = g0 # gs"
    using length_rs_generator_poly [of n] by (cases "rs_generator_poly n") auto
  have "poly_eval gf_mul (g0 # gs) (gexp 0) = 0"
    using rs_generator_poly_roots [of n "gexp 0"] assms g by auto
  then have gs: "poly_eval gf_mul gs 1 = g0"
    by (simp add: xor_eq_0_iff)
  have "g0 = gexp (\<Sum>i < n. i)"
    using rs_generator_poly_const [of n] assms g by simp
  moreover have "word_eval gf_mul ((replicate m 0 @ [d]) @ rs_encode (replicate m 0 @ [d]) n) (gexp 0)
      = d XOR gf_mul d g0"
    using gf.poly_eval_scale [of d gs 1] gs
      gf.word_eval_leading_zeros [of m "d # map (\<lambda>c. gf_mul c d) gs" 1]
    by (simp add: rs_encode_last_symbol g gf.word_eval_at_1 gf_mul_commute [of _ d])
  ultimately show ?thesis
    by (simp add: gf_mul_xor_right gf_mul_commute [of d 1])
qed

lemma gexp_eq_1_iff: "gexp k = 1 \<longleftrightarrow> k mod 255 = 0"
  using gexp_order [of "k mod 255"] gexp_mod [of k] by auto

lemma rs_encode_not_codeword:
  assumes "ec \<in> {7, 10, 15, 20, 26, 36, 40}" "d \<noteq> 0"
  shows "word_eval gf_mul ((replicate m 0 @ [d]) @ rs_encode (replicate m 0 @ [d]) ec) (gexp 0) \<noteq> 0"
proof -
  have "(\<Sum>i < ec. i) mod 255 \<noteq> 0"
    using assms(1) by (auto simp: Sum_Ico_nat lessThan_atLeast0)
  then have "1 XOR gexp (\<Sum>i < ec. i) \<noteq> 0"
    by (simp only: xor_eq_0_iff) (metis gexp_eq_1_iff)
  moreover have "0 < ec" "ec \<le> 510" using assms(1) by auto
  ultimately show ?thesis
    using assms(2) by (simp only: rs_encode_last_symbol_syndrome gf_mul_eq_0) simp
qed

section \<open>Properties of the generator and the encoder\<close>

text \<open>C23: The polynomial rs_generator_poly builds for n check symbols is monic of degree n and
  its roots are exactly the first n powers of 2, for every n the field's exponential table
  allows.\<close>

theorem rs_generator_poly_correct:
  assumes "n \<le> 255"
  shows "length (rs_generator_poly n) = n + 1 \<and> rs_generator_poly n ! n = 1 \<and>
    {x. poly_eval gf_mul (rs_generator_poly n) x = 0} = gexp ` {..<n} \<and> card (gexp ` {..<n}) = n"
proof -
  have "inj_on gexp {..<n}" by (rule inj_on_subset [OF gexp_inj]) (use assms in auto)
  then have "card (gexp ` {..<n}) = n" by (simp add: card_image)
  moreover have "poly_eval gf_mul (rs_generator_poly n) x = 0 \<longleftrightarrow> x \<in> gexp ` {..<n}" for x
    using assms by (auto simp: rs_generator_poly_roots)
  ultimately show ?thesis by (simp add: rs_generator_poly_last)
qed

theorem rs_generator_poly_correct_witness:
  "length (rs_generator_poly 26) = 26 + 1 \<and> rs_generator_poly 26 ! 26 = 1 \<and>
    {x. poly_eval gf_mul (rs_generator_poly 26) x = 0} = gexp ` {..<26} \<and> card (gexp ` {..<26}) = 26"
  by (rule rs_generator_poly_correct) simp

text \<open>The check symbols depend linearly on the data: for two messages of the same length
  the check symbols of their exclusive or are the exclusive or of their check symbols, for
  every number of check symbols, and there are always as many as asked for.\<close>

lemma rs_encode_is_linear:
  assumes "length a = length b"
  shows "rs_encode (xor_list a b) n = xor_list (rs_encode a n) (rs_encode b n) \<and>
    length (rs_encode a n) = n"
  using rs_encode_linear [OF assms] by simp

text \<open>C24: The division loop of rs_encode (lines 37 to 43) is the systematic encoder it is meant
  to be, when it is given the generator with its leading 1 first: the reversed list that
  rs_generator_poly returns makes the message followed by the remainder a word that vanishes
  at every root of the generator.\<close>

theorem rs_divide_leading_first:
  assumes "n \<le> 255" "i < n"
  shows "word_eval gf_mul (data @ rs_divide (rev (rs_generator_poly n)) data n) (gexp i) = 0"
proof (rule rs_divide_codeword)
  show "rev (rs_generator_poly n) ! 0 = 1"
    by (simp add: rev_nth rs_generator_poly_last)
  show "word_eval gf_mul (rev (rs_generator_poly n)) (gexp i) = 0"
    using assms by (auto simp: word_eval_def rs_generator_poly_roots)
qed simp

theorem rs_divide_leading_first_witness:
  "word_eval gf_mul ([64, 86] @ rs_divide (rev (rs_generator_poly 7)) [64, 86] 7) (gexp 3) = 0"
  by (rule rs_divide_leading_first) simp_all

text \<open>C25: rs_encode passes the generator to that loop constant term first, and the result is
  not a Reed-Solomon code word: for each of the seven numbers of check symbols of the version
  table and a message whose only nonzero symbol is its last, the encoded word does not vanish
  at the first root, so every decoder finds errors in it.\<close>

theorem rs_encode_parity_wrong:
  assumes "ec \<in> {7, 10, 15, 20, 26, 36, 40}" "d \<noteq> 0"
  shows "word_eval gf_mul ((replicate m 0 @ [d]) @ rs_encode (replicate m 0 @ [d]) ec) (gexp 0) \<noteq> 0"
  using assms by (rule rs_encode_not_codeword)

theorem rs_encode_parity_wrong_witness:
  "word_eval gf_mul ((replicate 3 0 @ [17]) @ rs_encode (replicate 3 0 @ [17]) 10) (gexp 0) \<noteq> 0"
  by (rule rs_encode_parity_wrong) simp_all

end
