(* ===== verification/Qr_Data.thy ===== *)
theory Qr_Data
  imports Reed_Solomon
begin

text \<open>
  The data part of generate_qr_matrix (qr_util.py, lines 45 to 93): the choice of the symbol
  version, the bit stream of the text, its padding and its grouping into code words.

  A text is a list of code points; str.encode("utf-8") is modelled with its only failure,
  a surrogate code point. Bits are the ints 0 and 1 the code appends to its list.
\<close>

section \<open>The symbol versions\<close>

record version_spec =
  version :: nat
  qr_size :: nat
  totalCodewords :: nat
  dataCodewords :: nat
  ecCodewords :: nat
  alignment :: "nat list"

definition VERSION_SPECS :: "version_spec list" where
  "VERSION_SPECS =
    [\<lparr>version = 1, qr_size = 21, totalCodewords = 26, dataCodewords = 19, ecCodewords = 7, alignment = []\<rparr>,
     \<lparr>version = 2, qr_size = 25, totalCodewords = 44, dataCodewords = 34, ecCodewords = 10, alignment = [6, 18]\<rparr>,
     \<lparr>version = 3, qr_size = 29, totalCodewords = 70, dataCodewords = 55, ecCodewords = 15, alignment = [6, 22]\<rparr>,
     \<lparr>version = 4, qr_size = 33, totalCodewords = 100, dataCodewords = 80, ecCodewords = 20, alignment = [6, 26]\<rparr>,
     \<lparr>version = 5, qr_size = 37, totalCodewords = 134, dataCodewords = 108, ecCodewords = 26, alignment = [6, 30]\<rparr>,
     \<lparr>version = 6, qr_size = 41, totalCodewords = 172, dataCodewords = 136, ecCodewords = 36, alignment = [6, 34]\<rparr>,
     \<lparr>version = 7, qr_size = 45, totalCodewords = 196, dataCodewords = 156, ecCodewords = 40, alignment = [6, 22, 38]\<rparr>]"

definition choose_spec :: "nat \<Rightarrow> version_spec" where
  "choose_spec data_len =
     (case find (\<lambda>s. dataCodewords s \<ge> data_len + 3) VERSION_SPECS of
        Some s \<Rightarrow> s
      | None \<Rightarrow> last VERSION_SPECS)"

section \<open>UTF-8\<close>

definition utf8_char :: "nat \<Rightarrow> byte list option" where
  "utf8_char c =
     (if c < 0x80 then Some [word_of_nat c]
      else if c < 0x800 then Some [word_of_nat (0xC0 + c div 64), word_of_nat (0x80 + c mod 64)]
      else if 0xD800 \<le> c \<and> c < 0xE000 then None
      else if c < 0x10000 then
        Some [word_of_nat (0xE0 + c div 4096), word_of_nat (0x80 + c div 64 mod 64),
              word_of_nat (0x80 + c mod 64)]
      else Some [word_of_nat (0xF0 + c div 262144), word_of_nat (0x80 + c div 4096 mod 64),
                 word_of_nat (0x80 + c div 64 mod 64), word_of_nat (0x80 + c mod 64)])"

fun utf8_encode :: "nat list \<Rightarrow> py_error + byte list" where
  "utf8_encode [] = Inr []"
| "utf8_encode (c # cs) =
     (case utf8_char c of
        None \<Rightarrow> Inl UnicodeEncodeError
      | Some bs \<Rightarrow> (case utf8_encode cs of Inl e \<Rightarrow> Inl e | Inr bs' \<Rightarrow> Inr (bs @ bs')))"

section \<open>The bit stream\<close>

definition push_bits :: "nat \<Rightarrow> int \<Rightarrow> nat list \<Rightarrow> nat list" where
  "push_bits val len bits =
     fold (\<lambda>i bits. bits @ [drop_bit (nat i) val AND 1]) (py_range (len - 1) (- 1) (- 1)) bits"

function pad_to_byte :: "nat list \<Rightarrow> nat list" where
  "pad_to_byte bits = (if length bits mod 8 \<noteq> 0 then pad_to_byte (bits @ [0]) else bits)"
  by pat_completeness auto
termination
  by (relation "measure (\<lambda>bits. (8 - length bits mod 8) mod 8)") (auto simp: mod_Suc)

function pad_codewords :: "nat \<Rightarrow> nat \<Rightarrow> nat list \<Rightarrow> nat list" where
  "pad_codewords total_data_bits pad_idx bits =
     (if length bits < total_data_bits
      then pad_codewords total_data_bits (pad_idx + 1) (push_bits ([0xEC, 0x11] ! (pad_idx mod 2)) 8 bits)
      else bits)"
  by pat_completeness auto

lemma length_fold_append_one: "length (fold (\<lambda>i b. b @ [f i]) xs bits) = length bits + length xs"
  by (induction xs arbitrary: bits) simp_all

lemma length_push_bits [simp]: "length (push_bits v n bits) = length bits + nat n"
  by (simp add: push_bits_def length_fold_append_one py_range_def Let_def)

termination pad_codewords
  by (relation "measure (\<lambda>(total, i, bits). total - length bits)") auto

declare pad_to_byte.simps [simp del] pad_codewords.simps [simp del]

definition bits_to_bytes :: "nat list \<Rightarrow> byte list" where
  "bits_to_bytes bits =
     map (\<lambda>i. fold (\<lambda>j b. push_bit 1 b OR word_of_nat (bits ! (nat i + j))) [0..<8] 0)
       (py_range 0 (int (length bits)) 8)"

definition qr_bits :: "byte list \<Rightarrow> nat list" where
  "qr_bits utf8_bytes =
     (let data_len = length utf8_bytes;
          spec = choose_spec data_len;
          bits = push_bits 4 4 [];
          bits = push_bits data_len 8 bits;
          bits = fold (\<lambda>b bits. push_bits (unat b) 8 bits) utf8_bytes bits;
          total_data_bits = dataCodewords spec * 8;
          term_len = min 4 (int total_data_bits - int (length bits));
          bits = push_bits 0 term_len bits;
          bits = pad_to_byte bits
      in pad_codewords total_data_bits 0 bits)"

definition data_codewords :: "byte list \<Rightarrow> byte list" where
  "data_codewords utf8_bytes = bits_to_bytes (qr_bits utf8_bytes)"

definition final_codewords :: "byte list \<Rightarrow> byte list" where
  "final_codewords utf8_bytes =
     (let data_bytes = data_codewords utf8_bytes;
          ec_bytes = rs_encode data_bytes (ecCodewords (choose_spec (length utf8_bytes)))
      in data_bytes @ ec_bytes)"

section \<open>Bits and their values\<close>

definition bits_of :: "nat \<Rightarrow> nat \<Rightarrow> nat list" where
  "bits_of n v = map (\<lambda>i. drop_bit i v AND 1) (rev [0..<n])"

definition bits_val :: "nat list \<Rightarrow> nat" where
  "bits_val bs = foldl (\<lambda>a b. 2 * a + b) 0 bs"

lemma length_bits_of [simp]: "length (bits_of n v) = n"
  by (simp add: bits_of_def)

lemma bits_of_0 [simp]: "bits_of 0 v = []"
  by (simp add: bits_of_def)

lemma bits_of_Suc: "bits_of (Suc n) v = (drop_bit n v AND 1) # bits_of n v"
  by (simp add: bits_of_def)

lemma bits_of_snoc: "bits_of (Suc n) v = bits_of n (v div 2) @ [v mod 2]"
proof (induction n)
  case (Suc n)
  have "drop_bit (Suc n) v = drop_bit n (v div 2)" by (simp add: drop_bit_Suc)
  with Suc show ?case by (subst (1 2) bits_of_Suc) simp
qed (simp add: bits_of_def and_one_eq)

lemma bits_val_snoc: "bits_val (bs @ [b]) = 2 * bits_val bs + b"
  by (simp add: bits_val_def)

lemma bits_val_bits_of: "bits_val (bits_of n v) = v mod 2 ^ n"
proof (induction n arbitrary: v)
  case (Suc n)
  have "2 * (v div 2 mod 2 ^ n) + v mod 2 = v mod (2 * 2 ^ n)"
    by (simp add: mod_mult2_eq)
  with Suc show ?case by (simp add: bits_of_snoc bits_val_snoc)
qed (simp add: bits_val_def)

definition is_bits :: "nat list \<Rightarrow> bool" where
  "is_bits bs \<longleftrightarrow> (\<forall>b \<in> set bs. b = 0 \<or> b = 1)"

lemma is_bits_simps [simp]:
  "is_bits []" "is_bits (x # xs) \<longleftrightarrow> (x = 0 \<or> x = 1) \<and> is_bits xs"
  "is_bits (xs @ ys) \<longleftrightarrow> is_bits xs \<and> is_bits ys" "is_bits (replicate n 0)"
  by (auto simp: is_bits_def)

lemma is_bits_bits_of [simp]: "is_bits (bits_of n v)"
  by (auto simp: is_bits_def bits_of_def and_one_eq)

lemma bits_of_bits_val: "is_bits bs \<Longrightarrow> bits_of (length bs) (bits_val bs) = bs"
proof (induction bs rule: rev_induct)
  case (snoc b bs)
  then show ?case by (auto simp: bits_of_snoc bits_val_snoc)
qed simp

lemma bits_val_less: "is_bits bs \<Longrightarrow> bits_val bs < 2 ^ length bs"
  by (metis bits_of_bits_val bits_val_bits_of mod_less_divisor zero_less_numeral zero_less_power)

lemma fold_append_map: "fold (\<lambda>i b. b @ [f i]) xs bits = bits @ map f xs"
  by (induction xs arbitrary: bits) simp_all

lemma push_bits_eq: "push_bits v (int n) bits = bits @ bits_of n v"
  by (simp add: push_bits_def py_range_down fold_append_map bits_of_def rev_map)

lemma push_bits_8 [simp]: "push_bits v 8 bits = bits @ bits_of 8 v"
  using push_bits_eq [of v 8] by simp

lemma push_bits_4: "push_bits v 4 bits = bits @ bits_of 4 v"
  using push_bits_eq [of v 4] by simp

lemma push_bits_neg: "n \<le> 0 \<Longrightarrow> push_bits v n bits = bits"
  by (simp add: push_bits_def py_range_empty)

lemma push_zeros: "push_bits 0 n bits = bits @ replicate (nat n) 0"
proof (cases "n \<le> 0")
  case False
  then have "push_bits 0 n bits = bits @ bits_of (nat n) 0"
    using push_bits_eq [of 0 "nat n" bits] by simp
  then show ?thesis by (simp add: bits_of_def map_replicate_const)
qed (simp add: push_bits_neg)

section \<open>The shape of the bit stream\<close>

lemma fold_push_bytes:
  "fold (\<lambda>b bits. push_bits (unat b) 8 bits) u bits = bits @ concat (map (\<lambda>b. bits_of 8 (unat b)) u)"
  by (induction u arbitrary: bits) simp_all

lemma pad_to_byte_eq:
  "\<exists>k. pad_to_byte bits = bits @ replicate k 0 \<and> k < 8 \<and> length (pad_to_byte bits) mod 8 = 0"
proof (induction bits rule: pad_to_byte.induct)
  case (1 bits)
  show ?case
  proof (cases "length bits mod 8 = 0")
    case True
    then show ?thesis by (simp add: pad_to_byte.simps [of bits])
  next
    case False
    then obtain k where k: "pad_to_byte (bits @ [0]) = (bits @ [0]) @ replicate k 0"
        "k < 8" "length (pad_to_byte (bits @ [0])) mod 8 = 0"
      using "1.IH" [OF False] by (elim exE conjE) (rule that)
    have u: "pad_to_byte bits = pad_to_byte (bits @ [0])"
      using False by (subst pad_to_byte.simps) simp
    have e: "pad_to_byte bits = bits @ replicate (Suc k) 0"
      by (simp add: u k(1))
    moreover have "Suc k < 8"
    proof (rule ccontr)
      assume "\<not> Suc k < 8"
      with k have "k = 7" by simp
      with k have "(length bits + 8) mod 8 = 0" by simp
      with False show False by simp
    qed
    moreover have "length (pad_to_byte bits) mod 8 = 0"
      by (simp only: u k(3))
    ultimately show ?thesis by (intro exI conjI)
  qed
qed

lemma pad_codewords_eq:
  assumes "length bits mod 8 = 0" "tb mod 8 = 0"
  shows "\<exists>ps. pad_codewords tb i bits = bits @ ps \<and> is_bits ps \<and>
    length (pad_codewords tb i bits) = max tb (length bits)"
  using assms
proof (induction tb i bits rule: pad_codewords.induct)
  case (1 tb i bits)
  show ?case
  proof (cases "length bits < tb")
    case True
    let ?b = "bits @ bits_of 8 ([0xEC, 0x11] ! (i mod 2))"
    obtain ps where ps: "pad_codewords tb (i + 1) ?b = ?b @ ps" "is_bits ps"
        "length (pad_codewords tb (i + 1) ?b) = max tb (length ?b)"
      using "1.IH" [OF True] "1.prems" by auto
    have "length bits + 8 \<le> tb"
      using True "1.prems" by presburger
    moreover have "pad_codewords tb i bits = pad_codewords tb (i + 1) ?b"
      using True by (subst pad_codewords.simps) simp
    ultimately show ?thesis using ps by (auto simp: max_def)
  next
    case False
    then show ?thesis by (simp add: pad_codewords.simps [of tb])
  qed
qed

definition qr_header :: "byte list \<Rightarrow> nat list" where
  "qr_header u = bits_of 4 4 @ bits_of 8 (length u) @ concat (map (\<lambda>b. bits_of 8 (unat b)) u)"

lemma length_concat_bytes [simp]: "length (concat (map (\<lambda>b. bits_of 8 (unat b)) u)) = 8 * length u"
  by (induction u) simp_all

lemma length_qr_header [simp]: "length (qr_header u) = 12 + 8 * length u"
  by (simp add: qr_header_def)

lemma is_bits_qr_header: "is_bits (qr_header u)"
  by (induction u) (auto simp: qr_header_def is_bits_def bits_of_def and_one_eq)

lemma qr_bits_shape:
  "\<exists>ps. qr_bits u = qr_header u @ ps \<and> is_bits ps \<and>
    length (qr_bits u) = 8 * max (dataCodewords (choose_spec (length u))) (length u + 2)"
proof -
  let ?total = "dataCodewords (choose_spec (length u)) * 8"
  let ?t = "nat (min 4 (int ?total - int (12 + 8 * length u)))"
  let ?h = "qr_header u @ replicate ?t 0"
  have h: "fold (\<lambda>b bits. push_bits (unat b) 8 bits) u (push_bits (length u) 8 (push_bits 4 4 []))
      = qr_header u"
    by (simp only: fold_push_bytes) (simp add: qr_header_def push_bits_4)
  have q: "qr_bits u = pad_codewords ?total 0 (pad_to_byte ?h)"
    unfolding qr_bits_def Let_def h by (simp only: push_zeros length_qr_header)
  obtain k where k: "pad_to_byte ?h = ?h @ replicate k 0" "k < 8" "length (pad_to_byte ?h) mod 8 = 0"
    using pad_to_byte_eq [of ?h] by (elim exE conjE) (rule that)
  obtain ps where ps: "qr_bits u = (?h @ replicate k 0) @ ps" "is_bits ps"
      "length (qr_bits u) = max ?total (length (?h @ replicate k 0))"
  proof -
    have "?total mod 8 = 0" by simp
    from pad_codewords_eq [OF k(3) this, of 0, folded q]
    show ?thesis by (elim exE conjE) (rule that, simp_all only: k(1))
  qed
  have "12 + 8 * length u + ?t + k = 8 * (length u + 2)"
  proof (cases "length u + 2 \<le> dataCodewords (choose_spec (length u))")
    case True
    then have t: "?t = 4" by simp
    have "length (pad_to_byte ?h) = 8 * (length u + 2) + k" 
      by (subst k(1), unfold length_append length_replicate length_qr_header t) simp
    with k(3) have "(8 * (length u + 2) + k) mod 8 = 0" by (simp only:)
    then have "k mod 8 = 0" by (simp only: mod_mult_self4)
    with k(2) t show ?thesis by simp
  next
    case False
    then have t: "?t = 0" by simp
    have "length (pad_to_byte ?h) = 8 * (length u + 1) + (4 + k)" 
      by (subst k(1), unfold length_append length_replicate length_qr_header t) simp
    with k(3) have "(8 * (length u + 1) + (4 + k)) mod 8 = 0" by (simp only:)
    then have "(4 + k) mod 8 = 0" by (simp only: mod_mult_self4)
    with k(2) have "k = 4" by presburger
    with t show ?thesis by simp
  qed
  then have "length (qr_bits u) = 8 * max (dataCodewords (choose_spec (length u))) (length u + 2)"
    using ps(3) by (auto simp: max_def)
  moreover have "qr_bits u = qr_header u @ (replicate ?t 0 @ replicate k 0 @ ps)"
    using ps(1) by simp
  moreover have "is_bits (replicate ?t 0 @ replicate k 0 @ ps)" using ps(2) by simp
  ultimately show ?thesis by (intro exI conjI)
qed

section \<open>Grouping bits into bytes\<close>

lemma unat_push_or:
  assumes "unat (b :: byte) < 128" "v = 0 \<or> v = (1 :: nat)"
  shows "unat (b * 2 OR word_of_nat v) = 2 * unat b + v"
proof -
  have t: "unat (b * 2) = 2 * unat b"
    using assms(1) by (simp add: unat_word_ariths)
  have "b * 2 OR 1 = b * 2 + 1"
    by (simp add: or_one_eq)
  moreover have "unat (b * 2 + 1) = 2 * unat b + 1"
    using assms(1) t by (simp add: unat_word_ariths)
  ultimately show ?thesis
    using assms(2) t by auto
qed

lemma fold_byte_val:
  assumes "is_bits bits" "s + n \<le> length bits" "n \<le> 8"
  shows "unat (fold (\<lambda>j b. push_bit 1 b OR word_of_nat (bits ! (s + j))) [0..<n] (0 :: byte))
    = bits_val (take n (drop s bits))"
  using assms(2,3)
proof (induction n)
  case 0
  show ?case by (simp add: bits_val_def)
next
  case (Suc n)
  have b: "bits ! (s + n) = 0 \<or> bits ! (s + n) = 1"
    using assms(1) Suc.prems by (auto simp: is_bits_def)
  have "is_bits (take n (drop s bits))"
    using assms(1) by (auto simp: is_bits_def dest: in_set_takeD in_set_dropD)
  moreover have "length (take n (drop s bits)) = n" using Suc.prems by simp
  ultimately have "bits_val (take n (drop s bits)) < 2 ^ n"
    using bits_val_less [of "take n (drop s bits)"] by (simp only:)
  also have "(2 :: nat) ^ n \<le> 2 ^ 7" using Suc.prems by (intro power_increasing) auto
  finally have "bits_val (take n (drop s bits)) < 128" by simp
  moreover have "take (Suc n) (drop s bits) = take n (drop s bits) @ [bits ! (s + n)]"
    using Suc.prems by (simp add: take_Suc_conv_app_nth)
  ultimately show ?case
    using Suc b by (simp add: unat_push_or bits_val_snoc)
qed

lemma py_range_8: "py_range 0 (int (8 * m)) 8 = map (\<lambda>k. 8 * int k) [0..<m]"
proof -
  have "(int (8 * m) + 7) div 8 = int m" by simp
  then show ?thesis by (simp add: py_range_def Let_def)
qed

lemma length_bits_to_bytes: "length bits = 8 * m \<Longrightarrow> length (bits_to_bytes bits) = m"
  by (simp only: bits_to_bytes_def py_range_8 length_map) simp

lemma bits_to_bytes_nth:
  assumes "is_bits bits" "length bits = 8 * m" "k < m"
  shows "bits_of 8 (unat (bits_to_bytes bits ! k)) = take 8 (drop (8 * k) bits)"
proof -
  have "unat (bits_to_bytes bits ! k) = bits_val (take 8 (drop (8 * k) bits))"
    using assms fold_byte_val [OF assms(1), of "8 * k" 8]
    by (simp only: bits_to_bytes_def py_range_8) (simp add: nat_mult_distrib)
  moreover have "is_bits (take 8 (drop (8 * k) bits))"
    using assms(1) by (auto simp: is_bits_def dest: in_set_takeD in_set_dropD)
  moreover have "length (take 8 (drop (8 * k) bits)) = 8" using assms by simp
  ultimately show ?thesis by (metis bits_of_bits_val)
qed

lemma concat_chunks:
  "length xs = 8 * m \<Longrightarrow> concat (map (\<lambda>k. take 8 (drop (8 * k) xs)) [0..<m]) = xs"
proof (induction m arbitrary: xs)
  case (Suc m)
  have "length (take (8 * m) xs) = 8 * m" using Suc.prems by simp
  then have "concat (map (\<lambda>k. take 8 (drop (8 * k) (take (8 * m) xs))) [0..<m]) = take (8 * m) xs"
    by (rule Suc.IH)
  moreover have "take 8 (drop (8 * k) (take (8 * m) xs)) = take 8 (drop (8 * k) xs)" if "k < m" for k
    using that by (simp add: drop_take min_def)
  then have "map (\<lambda>k. take 8 (drop (8 * k) (take (8 * m) xs))) [0..<m] =
      map (\<lambda>k. take 8 (drop (8 * k) xs)) [0..<m]" by simp
  ultimately have "concat (map (\<lambda>k. take 8 (drop (8 * k) xs)) [0..<m]) = take (8 * m) xs"
    by (simp only:)
  with Suc.prems show ?case by simp
qed simp

definition codeword_bits :: "byte list \<Rightarrow> nat list" where
  "codeword_bits cws = concat (map (\<lambda>b. bits_of 8 (unat b)) cws)"

lemma codeword_bits_of_bytes:
  assumes "is_bits bits" "length bits = 8 * m"
  shows "codeword_bits (bits_to_bytes bits) = bits"
proof -
  have "map (\<lambda>b. bits_of 8 (unat b)) (bits_to_bytes bits) = map (\<lambda>k. take 8 (drop (8 * k) bits)) [0..<m]"
    using assms bits_to_bytes_nth [OF assms] length_bits_to_bytes [OF assms(2)]
    by (intro nth_equalityI) auto
  then show ?thesis using assms(2) by (simp add: codeword_bits_def concat_chunks)
qed

section \<open>Reading the text back\<close>

definition decode_segment :: "byte list \<Rightarrow> byte list option" where
  "decode_segment cws =
     (let bs = codeword_bits cws; n = bits_val (take 8 (drop 4 bs))
      in if bits_val (take 4 bs) = 4 \<and> 12 + 8 * n \<le> length bs
         then Some (map (\<lambda>k. word_of_nat (bits_val (take 8 (drop (12 + 8 * k) bs)))) [0..<n])
         else None)"

lemma codeword_bits_data:
  "\<exists>ps. codeword_bits (data_codewords u) = qr_header u @ ps \<and>
     length (data_codewords u) = max (dataCodewords (choose_spec (length u))) (length u + 2)"
proof -
  obtain ps where ps: "qr_bits u = qr_header u @ ps" "is_bits ps"
      "length (qr_bits u) = 8 * max (dataCodewords (choose_spec (length u))) (length u + 2)"
    using qr_bits_shape by blast
  then have "is_bits (qr_bits u)" by (simp add: is_bits_qr_header)
  with ps show ?thesis
    unfolding data_codewords_def by (auto simp: codeword_bits_of_bytes length_bits_to_bytes)
qed

lemma drop_concat_bytes:
  "k < length u \<Longrightarrow> take 8 (drop (8 * k) (concat (map (\<lambda>b. bits_of 8 (unat b)) u) @ ps)) = bits_of 8 (unat (u ! k))"
proof (induction u arbitrary: k)
  case (Cons b u)
  then show ?case by (cases k) simp_all
qed simp

text \<open>C20: Decoding the data code words (mode 4, a length byte, that many bytes) gives back the text:
  for up to 255 bytes the whole UTF-8 text, whatever padding was added, and for longer texts,
  whose length the eight-bit length field wraps, only the first length mod 256 bytes.\<close>

theorem data_codewords_roundtrip:
  "decode_segment (data_codewords u) = Some (take (length u mod 256) u)"
proof -
  obtain ps where ps: "codeword_bits (data_codewords u) = qr_header u @ ps"
    using codeword_bits_data by blast
  let ?bs = "codeword_bits (data_codewords u)"
  have h: "take 4 ?bs = bits_of 4 4" "take 8 (drop 4 ?bs) = bits_of 8 (length u)"
    by (simp_all add: ps qr_header_def)
  have "take 8 (drop (12 + 8 * k) ?bs) = bits_of 8 (unat (u ! k))" if "k < length u" for k
    using drop_concat_bytes [OF that, of ps] by (simp add: ps qr_header_def)
  then have "bits_val (take 8 (drop (12 + 8 * k) ?bs)) = unat (u ! k)" if "k < length u" for k
    using that unat_byte [of "u ! k"] by (simp add: bits_val_bits_of)
  then have "map (\<lambda>k. word_of_nat (bits_val (take 8 (drop (12 + 8 * k) ?bs)))) [0..<length u mod 256]
      = take (length u mod 256) u"
    using mod_less_eq_dividend [of "length u" 256]
    by (intro nth_equalityI) (auto dest: less_le_trans)
  moreover have "12 + 8 * (length u mod 256) \<le> length ?bs"
    using mod_less_eq_dividend [of "length u" 256] by (simp add: ps)
  ultimately show ?thesis
    by (simp add: decode_segment_def Let_def h bits_val_bits_of)
qed

lemma choose_spec_cases:
  "choose_spec n \<in> set VERSION_SPECS"
  "n \<le> 153 \<Longrightarrow> n + 3 \<le> dataCodewords (choose_spec n)"
  "153 < n \<Longrightarrow> dataCodewords (choose_spec n) = 156"
  by (auto simp: choose_spec_def VERSION_SPECS_def)

lemma VERSION_SPECS_total: "s \<in> set VERSION_SPECS \<Longrightarrow> totalCodewords s = dataCodewords s + ecCodewords s"
  by (auto simp: VERSION_SPECS_def)

text \<open>C40: The code words fill the chosen version exactly for texts of up to 154 bytes, and only
  for them: longer texts, which no check refuses, produce more code words than the largest
  version of the table holds.\<close>

theorem final_codewords_capacity:
  "length (final_codewords u) = totalCodewords (choose_spec (length u)) \<longleftrightarrow> length u \<le> 154"
proof -
  have "length (data_codewords u) = max (dataCodewords (choose_spec (length u))) (length u + 2)"
    using codeword_bits_data by blast
  then show ?thesis
    using choose_spec_cases [of "length u"] VERSION_SPECS_total [of "choose_spec (length u)"]
    by (cases "length u \<le> 153") (auto simp: final_codewords_def Let_def)
qed
end
