(* ===== verification/Qr_Matrix.thy ===== *)
theory Qr_Matrix
  imports Qr_Data
begin

text \<open>
  The drawing part of generate_qr_matrix (qr_util.py, lines 95 to 186). The two lists of
  lists the function fills, matrix (None, or the colour of a module) and is_func (the module
  belongs to a function pattern), form the record qr_canvas; every nested function and every
  loop is an operation on it. Row and column numbers are ints where the code computes
  numbers outside the symbol (draw_finder starts at -1) and tests them, nat elsewhere.
\<close>

section \<open>The canvas\<close>

record qr_canvas =
  matrix :: "bool option list list"
  is_func :: "bool list list"

definition put :: "nat \<Rightarrow> nat \<Rightarrow> 'a \<Rightarrow> 'a list list \<Rightarrow> 'a list list" where
  "put r c v m = m[r := (m ! r)[c := v]]"

definition empty_canvas :: "nat \<Rightarrow> qr_canvas" where
  "empty_canvas n = \<lparr>matrix = replicate n (replicate n None), is_func = replicate n (replicate n False)\<rparr>"

definition set_func :: "nat \<Rightarrow> int \<Rightarrow> int \<Rightarrow> bool \<Rightarrow> qr_canvas \<Rightarrow> qr_canvas" where
  "set_func n r c val q =
     (if 0 \<le> r \<and> r < int n \<and> 0 \<le> c \<and> c < int n
      then q\<lparr>matrix := put (nat r) (nat c) (Some val) (matrix q),
             is_func := put (nat r) (nat c) True (is_func q)\<rparr>
      else q)"

section \<open>Function patterns\<close>

definition finder_black :: "int \<Rightarrow> int \<Rightarrow> bool" where
  "finder_black r c \<longleftrightarrow>
     (0 \<le> r \<and> r \<le> 6 \<and> (c = 0 \<or> c = 6)) \<or> (0 \<le> c \<and> c \<le> 6 \<and> (r = 0 \<or> r = 6)) \<or>
     (2 \<le> r \<and> r \<le> 4 \<and> 2 \<le> c \<and> c \<le> 4)"

definition draw_finder :: "nat \<Rightarrow> int \<Rightarrow> int \<Rightarrow> qr_canvas \<Rightarrow> qr_canvas" where
  "draw_finder n r0 c0 q =
     fold (\<lambda>r. fold (\<lambda>c q.
       if 0 \<le> r0 + r \<and> r0 + r < int n \<and> 0 \<le> c0 + c \<and> c0 + c < int n
       then set_func n (r0 + r) (c0 + c) (finder_black r c) q
       else q) (py_range (- 1) 8 1)) (py_range (- 1) 8 1) q"

definition draw_timing :: "nat \<Rightarrow> qr_canvas \<Rightarrow> qr_canvas" where
  "draw_timing n q =
     fold (\<lambda>i q. set_func n i 6 (i mod 2 = 0) (set_func n 6 i (i mod 2 = 0) q))
       (py_range 8 (int n - 8) 1) q"

definition draw_alignment_at :: "nat \<Rightarrow> int \<Rightarrow> int \<Rightarrow> qr_canvas \<Rightarrow> qr_canvas" where
  "draw_alignment_at n ar ac q =
     (if (ar \<le> 8 \<and> ac \<le> 8) \<or> (ar \<le> 8 \<and> ac \<ge> int n - 8) \<or> (ar \<ge> int n - 8 \<and> ac \<le> 8)
      then q
      else fold (\<lambda>r. fold (\<lambda>c. set_func n (ar + r) (ac + c) (max \<bar>r\<bar> \<bar>c\<bar> \<noteq> 1))
             (py_range (- 2) 3 1)) (py_range (- 2) 3 1) q)"

definition draw_alignment :: "nat \<Rightarrow> nat list \<Rightarrow> qr_canvas \<Rightarrow> qr_canvas" where
  "draw_alignment n als q =
     (if als \<noteq> []
      then fold (\<lambda>ar. fold (\<lambda>ac. draw_alignment_at n (int ar) (int ac)) als) als q
      else q)"

text \<open>The modules kept free for the format bits: set_func where is_func does not hold yet.\<close>

definition reserve :: "nat \<Rightarrow> nat \<Rightarrow> nat \<Rightarrow> qr_canvas \<Rightarrow> qr_canvas" where
  "reserve n r c q = (if \<not> is_func q ! r ! c then set_func n (int r) (int c) False q else q)"

definition reserve_format :: "nat \<Rightarrow> qr_canvas \<Rightarrow> qr_canvas" where
  "reserve_format n q =
     (let q = set_func n (int n - 8) 8 True q;
          q = fold (\<lambda>i q. if i < n then reserve n i 8 (reserve n 8 i q) else q) [0..<9] q
      in fold (\<lambda>i q. if 0 \<le> int n - 1 - int i
                 then reserve n (n - 1 - i) 8 (reserve n 8 (n - 1 - i) q) else q) [0..<8] q)"

definition func_canvas :: "nat \<Rightarrow> nat list \<Rightarrow> qr_canvas" where
  "func_canvas n als =
     (let q = empty_canvas n;
          q = draw_finder n 0 0 q;
          q = draw_finder n 0 (int n - 7) q;
          q = draw_finder n (int n - 7) 0 q;
          q = draw_timing n q;
          q = draw_alignment n als q
      in reserve_format n q)"

section \<open>Placing the code words\<close>

text \<open>
  The zigzag over the columns. The loop variable right is assigned inside the body when it
  is 6, but the for statement takes its next value from the range: the assignment does not
  carry over.
\<close>

record placer =
  byte_idx :: nat
  bit_idx :: int
  up :: bool
  placed :: "bool option list list"

definition place_module :: "byte list \<Rightarrow> bool list list \<Rightarrow> nat \<Rightarrow> nat \<Rightarrow> placer \<Rightarrow> placer" where
  "place_module cws func r c p =
     (if \<not> func ! r ! c then
        (if byte_idx p < length cws then
           let b = (drop_bit (nat (bit_idx p)) (unat (cws ! byte_idx p)) AND 1 = 1);
               bi = bit_idx p - 1;
               p = (if bi < 0 then p\<lparr>bit_idx := 7, byte_idx := byte_idx p + 1\<rparr> else p\<lparr>bit_idx := bi\<rparr>)
           in p\<lparr>placed := put r c (Some b) (placed p)\<rparr>
         else p\<lparr>placed := put r c (Some False) (placed p)\<rparr>)
      else p)"

definition place_column :: "byte list \<Rightarrow> bool list list \<Rightarrow> nat \<Rightarrow> int \<Rightarrow> placer \<Rightarrow> placer" where
  "place_column cws func n right p =
     (let right = (if right = 6 then right - 1 else right);
          p = fold (\<lambda>vert p.
                let r = (if up p then n - 1 - vert else vert)
                in fold (\<lambda>c. place_module cws func r (nat c)) [right, right - 1] p) [0..<n] p
      in p\<lparr>up := \<not> up p\<rparr>)"

definition place_data :: "byte list \<Rightarrow> nat \<Rightarrow> qr_canvas \<Rightarrow> bool option list list" where
  "place_data cws n q =
     placed (fold (place_column cws (is_func q) n) (py_range (int n - 1) 0 (- 2))
       \<lparr>byte_idx = 0, bit_idx = 7, up = True, placed = matrix q\<rparr>)"

section \<open>Mask and format\<close>

definition py_bool :: "bool option \<Rightarrow> bool" where
  "py_bool x = (case x of None \<Rightarrow> False | Some b \<Rightarrow> b)"

definition apply_mask :: "nat \<Rightarrow> bool list list \<Rightarrow> bool option list list \<Rightarrow> bool list list" where
  "apply_mask n func m =
     map (\<lambda>r. map (\<lambda>c. if func ! r ! c then py_bool (m ! r ! c)
                       else py_bool (m ! r ! c) \<noteq> ((r + c) mod 2 = 0)) [0..<n]) [0..<n]"

definition format_bits :: nat where
  "format_bits = 0x77C4"

definition get_fbit :: "nat \<Rightarrow> bool" where
  "get_fbit i \<longleftrightarrow> drop_bit i format_bits AND 1 = 1"

definition write_format :: "nat \<Rightarrow> bool list list \<Rightarrow> bool list list" where
  "write_format n m =
     (let m = fold (\<lambda>i. put 8 i (get_fbit i)) [0..<6] m;
          m = put 8 7 (get_fbit 6) m;
          m = put 8 8 (get_fbit 7) m;
          m = put 7 8 (get_fbit 8) m;
          m = fold (\<lambda>i. put (14 - i) 8 (get_fbit i)) [9..<15] m;
          m = fold (\<lambda>i. put (n - 1 - i) 8 (get_fbit i)) [0..<8] m;
          m = fold (\<lambda>i. put 8 (n - 15 + i) (get_fbit i)) [8..<15] m
      in put (n - 8) 8 True m)"

definition qr_matrix :: "byte list \<Rightarrow> bool list list" where
  "qr_matrix utf8_bytes =
     (let spec = choose_spec (length utf8_bytes);
          n = qr_size spec;
          cws = final_codewords utf8_bytes;
          q = func_canvas n (alignment spec);
          m = place_data cws n q;
          final_result = apply_mask n (is_func q) m
      in write_format n final_result)"

definition generate_qr_matrix :: "nat list \<Rightarrow> py_error + bool list list" where
  "generate_qr_matrix t =
     (case utf8_encode t of
        Inl e \<Rightarrow> Inl e
      | Inr utf8_bytes \<Rightarrow> Inr (qr_matrix utf8_bytes))"

section \<open>Reading a square of modules\<close>

definition dims :: "nat \<Rightarrow> 'a list list \<Rightarrow> bool" where
  "dims n m \<longleftrightarrow> length m = n \<and> (\<forall>r < n. length (m ! r) = n)"

lemma dims_put [simp]: "dims n m \<Longrightarrow> dims n (put r c v m)"
  by (cases "r < length m") (auto simp: dims_def put_def nth_list_update)

lemma put_nth:
  "dims n m \<Longrightarrow> R < n \<Longrightarrow> C < n \<Longrightarrow>
     put r c v m ! R ! C = (if R = r \<and> C = c then v else m ! R ! C)"
  by (cases "R = r"; cases "C = c") (auto simp: dims_def put_def nth_list_update)

definition wf_canvas :: "nat \<Rightarrow> qr_canvas \<Rightarrow> bool" where
  "wf_canvas n q \<longleftrightarrow> dims n (matrix q) \<and> dims n (is_func q)"

text \<open>
  paints: the modules of a region get the colours a function assigns to them and become
  function modules, the others stay. reserves: the same, with the colour light, and only
  for modules that were not function modules yet.
\<close>

definition paints ::
  "nat \<Rightarrow> qr_canvas \<Rightarrow> qr_canvas \<Rightarrow> (nat \<Rightarrow> nat \<Rightarrow> bool) \<Rightarrow> (nat \<Rightarrow> nat \<Rightarrow> bool) \<Rightarrow> bool" where
  "paints n q q' P v \<longleftrightarrow> wf_canvas n q' \<and>
     (\<forall>R < n. \<forall>C < n. (is_func q' ! R ! C \<longleftrightarrow> P R C \<or> is_func q ! R ! C) \<and>
        matrix q' ! R ! C = (if P R C then Some (v R C) else matrix q ! R ! C))"

definition reserves :: "nat \<Rightarrow> qr_canvas \<Rightarrow> qr_canvas \<Rightarrow> (nat \<Rightarrow> nat \<Rightarrow> bool) \<Rightarrow> bool" where
  "reserves n q q' P \<longleftrightarrow> wf_canvas n q' \<and>
     (\<forall>R < n. \<forall>C < n. (is_func q' ! R ! C \<longleftrightarrow> P R C \<or> is_func q ! R ! C) \<and>
        matrix q' ! R ! C = (if P R C \<and> \<not> is_func q ! R ! C then Some False else matrix q ! R ! C))"

lemma paints_set_func:
  "wf_canvas n q \<Longrightarrow> (\<And>R C. int R = r \<Longrightarrow> int C = c \<Longrightarrow> v R C = val) \<Longrightarrow>
     paints n q (set_func n r c val q) (\<lambda>R C. int R = r \<and> int C = c) v"
  by (auto simp: paints_def wf_canvas_def set_func_def put_nth split: if_splits)

lemma paints_refl: "wf_canvas n q \<Longrightarrow> paints n q q (\<lambda>R C. False) v"
  by (simp add: paints_def)

lemma paints_trans:
  "paints n q q1 P v \<Longrightarrow> paints n q1 q2 P' v \<Longrightarrow> paints n q q2 (\<lambda>R C. P' R C \<or> P R C) v"
  by (auto simp: paints_def)

lemma paints_cong:
  "paints n q q' P v \<Longrightarrow> (\<And>R C. R < n \<Longrightarrow> C < n \<Longrightarrow> P R C \<longleftrightarrow> P' R C) \<Longrightarrow>
     (\<And>R C. P' R C \<Longrightarrow> v R C = v' R C) \<Longrightarrow> paints n q q' P' v'"
  by (simp add: paints_def)

lemma paints_wf: "paints n q q' P v \<Longrightarrow> wf_canvas n q'"
  by (simp add: paints_def)

lemma paints_fold:
  assumes "wf_canvas n q" "\<And>i q. i \<in> set is \<Longrightarrow> wf_canvas n q \<Longrightarrow> paints n q (f i q) (P i) v"
  shows "paints n q (fold f is q) (\<lambda>R C. \<exists>i \<in> set is. P i R C) v"
  using assms
proof (induction "is" arbitrary: q)
  case (Cons i "is")
  have "paints n q (f i q) (P i) v" using Cons.prems by simp
  moreover from this have "paints n (f i q) (fold f is (f i q)) (\<lambda>R C. \<exists>i \<in> set is. P i R C) v"
    by (intro Cons.IH) (auto intro: paints_wf Cons.prems)
  ultimately show ?case
    by (auto dest: paints_trans intro: paints_cong)
qed (simp add: paints_refl)

lemma wf_empty_canvas: "wf_canvas n (empty_canvas n)"
  by (simp add: wf_canvas_def empty_canvas_def dims_def)

section \<open>The regions the drawing operations paint\<close>

lemma shifted_square:
  "(\<exists>r \<in> set (py_range a b 1). \<exists>c \<in> set (py_range a b 1). x = r0 + r \<and> y = c0 + c) \<longleftrightarrow>
     (a \<le> x - r0 \<and> x - r0 < b) \<and> (a \<le> y - c0 \<and> y - c0 < b)"
proof -
  have "(\<exists>r \<in> {a..b - 1}. z = z0 + r) \<longleftrightarrow> a \<le> z - z0 \<and> z - z0 < b" for z z0
    by (auto intro: bexI [where x = "z - z0"])
  then show ?thesis by (auto simp: py_range_up)
qed

definition in_finder :: "int \<Rightarrow> int \<Rightarrow> nat \<Rightarrow> nat \<Rightarrow> bool" where
  "in_finder r0 c0 R C \<longleftrightarrow> -1 \<le> int R - r0 \<and> int R - r0 \<le> 7 \<and> -1 \<le> int C - c0 \<and> int C - c0 \<le> 7"

lemma paints_finder:
  assumes "wf_canvas n q"
  shows "paints n q (draw_finder n r0 c0 q) (in_finder r0 c0)
    (\<lambda>R C. finder_black (int R - r0) (int C - c0))"
proof -
  let ?v = "\<lambda>R C. finder_black (int R - r0) (int C - c0)"
  have "paints n q (if 0 \<le> r0 + r \<and> r0 + r < int n \<and> 0 \<le> c0 + c \<and> c0 + c < int n
       then set_func n (r0 + r) (c0 + c) (finder_black r c) q
       else q) (\<lambda>R C. int R = r0 + r \<and> int C = c0 + c) ?v" if "wf_canvas n q" for r c q
    using paints_set_func [OF that, of "r0 + r" "c0 + c" ?v "finder_black r c"] paints_refl [OF that, of ?v]
    by (auto elim: paints_cong)
  then have "paints n q (draw_finder n r0 c0 q)
      (\<lambda>R C. \<exists>r \<in> set (py_range (- 1) 8 1). \<exists>c \<in> set (py_range (- 1) 8 1). int R = r0 + r \<and> int C = c0 + c) ?v"
    unfolding draw_finder_def using assms by (intro paints_fold) auto
  then show ?thesis
    unfolding shifted_square by (rule paints_cong) (auto simp: in_finder_def)
qed

definition in_timing :: "nat \<Rightarrow> nat \<Rightarrow> nat \<Rightarrow> bool" where
  "in_timing n R C \<longleftrightarrow> (R = 6 \<and> 8 \<le> C \<and> C + 8 < n) \<or> (C = 6 \<and> 8 \<le> R \<and> R + 8 < n)"

definition timing_black :: "nat \<Rightarrow> nat \<Rightarrow> bool" where
  "timing_black R C \<longleftrightarrow> (if R = 6 then C mod 2 = 0 else R mod 2 = 0)"

lemma paints_timing:
  assumes "wf_canvas n q"
  shows "paints n q (draw_timing n q) (in_timing n) timing_black"
proof -
  have "paints n q (set_func n i 6 (i mod 2 = 0) (set_func n 6 i (i mod 2 = 0) q))
      (\<lambda>R C. (int R = i \<and> C = 6) \<or> (R = 6 \<and> int C = i)) timing_black"
    if "wf_canvas n q" "i \<in> set (py_range 8 (int n - 8) 1)" for i q
  proof -
    have "8 \<le> i" using that(2) by (simp add: py_range_up)
    let ?q = "set_func n 6 i (i mod 2 = 0) q"
    have 1: "paints n q ?q (\<lambda>R C. int R = 6 \<and> int C = i) timing_black"
      using that(1) by (intro paints_set_func) (auto simp: timing_black_def zmod_int)
    have 2: "paints n ?q (set_func n i 6 (i mod 2 = 0) ?q) (\<lambda>R C. int R = i \<and> int C = 6) timing_black"
      using paints_wf [OF 1] \<open>8 \<le> i\<close> by (intro paints_set_func) (auto simp: timing_black_def zmod_int)
    from paints_trans [OF 1 2] show ?thesis by (rule paints_cong) auto
  qed
  then have "paints n q (draw_timing n q)
      (\<lambda>R C. \<exists>i \<in> set (py_range 8 (int n - 8) 1). (int R = i \<and> C = 6) \<or> (R = 6 \<and> int C = i)) timing_black"
    unfolding draw_timing_def using assms by (intro paints_fold) auto
  then show ?thesis
    by (rule paints_cong) (auto simp: in_timing_def py_range_up)
qed

definition skip_alignment :: "nat \<Rightarrow> nat \<Rightarrow> nat \<Rightarrow> bool" where
  "skip_alignment n ar ac \<longleftrightarrow>
     (ar \<le> 8 \<and> ac \<le> 8) \<or> (ar \<le> 8 \<and> ac + 8 \<ge> n) \<or> (ar + 8 \<ge> n \<and> ac \<le> 8)"

definition near :: "nat \<Rightarrow> nat \<Rightarrow> nat \<Rightarrow> nat \<Rightarrow> bool" where
  "near ar ac R C \<longleftrightarrow> \<bar>int R - int ar\<bar> \<le> 2 \<and> \<bar>int C - int ac\<bar> \<le> 2"

definition in_alignment :: "nat \<Rightarrow> nat list \<Rightarrow> nat \<Rightarrow> nat \<Rightarrow> bool" where
  "in_alignment n als R C \<longleftrightarrow>
     (\<exists>ar \<in> set als. \<exists>ac \<in> set als. \<not> skip_alignment n ar ac \<and> near ar ac R C)"

definition alignment_black :: "nat list \<Rightarrow> nat \<Rightarrow> nat \<Rightarrow> bool" where
  "alignment_black als R C \<longleftrightarrow>
     (\<exists>ar \<in> set als. \<exists>ac \<in> set als. near ar ac R C \<and> max \<bar>int R - int ar\<bar> \<bar>int C - int ac\<bar> \<noteq> 1)"

definition spaced :: "nat list \<Rightarrow> bool" where
  "spaced als \<longleftrightarrow> (\<forall>a \<in> set als. \<forall>b \<in> set als. a \<noteq> b \<longrightarrow> 4 < \<bar>int a - int b\<bar>)"

lemma spacedD:
  "spaced als \<Longrightarrow> a \<in> set als \<Longrightarrow> b \<in> set als \<Longrightarrow> \<bar>x - int a\<bar> \<le> 2 \<Longrightarrow> \<bar>x - int b\<bar> \<le> 2 \<Longrightarrow> a = b"
  unfolding spaced_def by (rule ccontr) force

lemma alignment_black_near:
  assumes "spaced als" "ar \<in> set als" "ac \<in> set als" "near ar ac R C"
  shows "alignment_black als R C \<longleftrightarrow> max \<bar>int R - int ar\<bar> \<bar>int C - int ac\<bar> \<noteq> 1"
proof -
  have u: "a = ar \<and> b = ac" if "a \<in> set als" "b \<in> set als" "near a b R C" for a b
    using that(3) assms(4) unfolding near_def
    by (auto intro: spacedD [OF assms(1) that(1) assms(2), of "int R"]
          spacedD [OF assms(1) that(2) assms(3), of "int C"])
  show ?thesis
    unfolding alignment_black_def using u assms(2-4) by metis
qed

lemma paints_alignment_at:
  assumes "wf_canvas n q" "spaced als" "ar \<in> set als" "ac \<in> set als"
  shows "paints n q (draw_alignment_at n (int ar) (int ac) q)
    (\<lambda>R C. \<not> skip_alignment n ar ac \<and> near ar ac R C) (alignment_black als)"
proof (cases "skip_alignment n ar ac")
  case True
  then have "draw_alignment_at n (int ar) (int ac) q = q"
    by (auto simp: draw_alignment_at_def skip_alignment_def)
  with True assms(1) show ?thesis by (simp add: paints_refl)
next
  case False
  let ?v = "\<lambda>R C. max \<bar>int R - int ar\<bar> \<bar>int C - int ac\<bar> \<noteq> 1"
  have d: "draw_alignment_at n (int ar) (int ac) q =
      fold (\<lambda>r. fold (\<lambda>c. set_func n (int ar + r) (int ac + c) (max \<bar>r\<bar> \<bar>c\<bar> \<noteq> 1))
        (py_range (- 2) 3 1)) (py_range (- 2) 3 1) q"
    using False by (auto simp: draw_alignment_at_def skip_alignment_def)
  have "paints n q (draw_alignment_at n (int ar) (int ac) q)
      (\<lambda>R C. \<exists>r \<in> set (py_range (- 2) 3 1). \<exists>c \<in> set (py_range (- 2) 3 1).
         int R = int ar + r \<and> int C = int ac + c) ?v"
    unfolding d using assms(1) by (intro paints_fold paints_set_func) auto
  then have p: "paints n q (draw_alignment_at n (int ar) (int ac) q) (near ar ac) ?v"
    unfolding shifted_square by (rule paints_cong) (auto simp: near_def)
  with False show ?thesis
    using alignment_black_near [OF assms(2-4)] by (intro paints_cong [OF p]) auto
qed

lemma paints_alignment:
  assumes "wf_canvas n q" "spaced als"
  shows "paints n q (draw_alignment n als q) (in_alignment n als) (alignment_black als)"
proof -
  have "paints n q (draw_alignment n als q)
      (\<lambda>R C. \<exists>ar \<in> set als. \<exists>ac \<in> set als. \<not> skip_alignment n ar ac \<and> near ar ac R C) (alignment_black als)"
    unfolding draw_alignment_def using assms
    by (cases "als = []") (auto intro!: paints_refl paints_fold paints_alignment_at)
  then show ?thesis by (rule paints_cong) (auto simp: in_alignment_def)
qed

lemma reserves_refl: "wf_canvas n q \<Longrightarrow> reserves n q q (\<lambda>R C. False)"
  by (simp add: reserves_def)

lemma reserves_trans:
  "reserves n q q1 P \<Longrightarrow> reserves n q1 q2 P' \<Longrightarrow> reserves n q q2 (\<lambda>R C. P' R C \<or> P R C)"
  by (auto simp: reserves_def)

lemma reserves_cong:
  "reserves n q q' P \<Longrightarrow> (\<And>R C. R < n \<Longrightarrow> C < n \<Longrightarrow> P R C \<longleftrightarrow> P' R C) \<Longrightarrow> reserves n q q' P'"
  by (simp add: reserves_def)

lemma reserves_wf: "reserves n q q' P \<Longrightarrow> wf_canvas n q'"
  by (simp add: reserves_def)

lemma reserves_fold:
  assumes "wf_canvas n q" "\<And>i q. i \<in> set is \<Longrightarrow> wf_canvas n q \<Longrightarrow> reserves n q (f i q) (P i)"
  shows "reserves n q (fold f is q) (\<lambda>R C. \<exists>i \<in> set is. P i R C)"
  using assms
proof (induction "is" arbitrary: q)
  case (Cons i "is")
  have "reserves n q (f i q) (P i)" using Cons.prems by simp
  moreover from this have "reserves n (f i q) (fold f is (f i q)) (\<lambda>R C. \<exists>i \<in> set is. P i R C)"
    by (intro Cons.IH) (auto intro: reserves_wf Cons.prems)
  ultimately show ?case
    by (auto dest: reserves_trans intro: reserves_cong)
qed (simp add: reserves_refl)

lemma reserves_reserve:
  assumes "wf_canvas n q" "r < n" "c < n"
  shows "reserves n q (reserve n r c q) (\<lambda>R C. R = r \<and> C = c)"
  using assms
  by (auto simp: reserves_def reserve_def wf_canvas_def set_func_def put_nth split: if_splits)

lemma reserves_two:
  assumes "wf_canvas n q" "r < n" "c < n" "r' < n" "c' < n"
  shows "reserves n q (reserve n r' c' (reserve n r c q)) (\<lambda>R C. R = r' \<and> C = c' \<or> R = r \<and> C = c)"
proof -
  have "reserves n q (reserve n r c q) (\<lambda>R C. R = r \<and> C = c)"
    using assms by (simp add: reserves_reserve)
  moreover from reserves_wf [OF this]
  have "reserves n (reserve n r c q) (reserve n r' c' (reserve n r c q)) (\<lambda>R C. R = r' \<and> C = c')"
    using assms by (simp add: reserves_reserve)
  ultimately show ?thesis by (rule reserves_trans)
qed

definition in_format :: "nat \<Rightarrow> nat \<Rightarrow> nat \<Rightarrow> bool" where
  "in_format n R C \<longleftrightarrow> (R = 8 \<and> (C < 9 \<or> n \<le> C + 8)) \<or> (C = 8 \<and> (R < 9 \<or> n \<le> R + 8))"

lemma bex_split:
  "(\<exists>i \<in> S. A i \<and> b \<or> c \<and> E i) \<longleftrightarrow> ((\<exists>i \<in> S. A i) \<and> b) \<or> (c \<and> (\<exists>i \<in> S. E i))"
  by blast

lemma reserve_format_spec:
  assumes "wf_canvas n q" "21 \<le> n"
  defines "dark \<equiv> set_func n (int n - 8) 8 True q"
  shows "reserves n dark (reserve_format n q) (in_format n)"
proof -
  have wf: "wf_canvas n dark"
    unfolding dark_def using assms(1) by (rule paints_wf [OF paints_set_func]) auto
  let ?f = "\<lambda>i q. if i < n then reserve n i 8 (reserve n 8 i q) else q"
  let ?g = "\<lambda>i q. if 0 \<le> int n - 1 - int i
                 then reserve n (n - 1 - i) 8 (reserve n 8 (n - 1 - i) q) else q"
  let ?q1 = "fold ?f [0..<9] dark"
  have 1: "reserves n dark ?q1 (\<lambda>R C. \<exists>i \<in> set [0..<9]. R = i \<and> C = 8 \<or> R = 8 \<and> C = i)"
    using wf assms(2) by (intro reserves_fold) (auto intro!: reserves_two)
  have "reserves n ?q1 (fold ?g [0..<8] ?q1)
      (\<lambda>R C. \<exists>i \<in> set [0..<8]. R = n - 1 - i \<and> C = 8 \<or> R = 8 \<and> C = n - 1 - i)"
    using reserves_wf [OF 1] assms(2) by (intro reserves_fold) (auto intro!: reserves_two)
  from reserves_trans [OF 1 this]
  have "reserves n dark (reserve_format n q)
      (\<lambda>R C. (\<exists>i \<in> set [0..<8]. R = n - 1 - i \<and> C = 8 \<or> R = 8 \<and> C = n - 1 - i) \<or>
         (\<exists>i \<in> set [0..<9]. R = i \<and> C = 8 \<or> R = 8 \<and> C = i))"
    by (simp only: reserve_format_def Let_def dark_def)
  then show ?thesis
  proof (rule reserves_cong)
    fix R C
    assume "R < n" "C < n"
    have *: "(\<exists>i \<in> set [0..<8]. x = n - 1 - i) \<longleftrightarrow> n \<le> x + 8" if "x < n" for x
      using that assms(2) by (auto intro: bexI [where x = "n - 1 - x"])
    show "(\<exists>i \<in> set [0..<8]. R = n - 1 - i \<and> C = 8 \<or> R = 8 \<and> C = n - 1 - i) \<or>
         (\<exists>i \<in> set [0..<9]. R = i \<and> C = 8 \<or> R = 8 \<and> C = i) \<longleftrightarrow> in_format n R C"
      unfolding bex_split * [OF \<open>R < n\<close>] * [OF \<open>C < n\<close>] in_format_def by auto
  qed
qed

text \<open>The finished function patterns, module by module.\<close>

lemma paintsD:
  assumes "paints n q q' P v" "R < n" "C < n"
  shows "is_func q' ! R ! C \<longleftrightarrow> P R C \<or> is_func q ! R ! C"
    and "matrix q' ! R ! C = (if P R C then Some (v R C) else matrix q ! R ! C)"
  using assms by (simp_all add: paints_def)

lemma reservesD:
  assumes "reserves n q q' P" "R < n" "C < n"
  shows "is_func q' ! R ! C \<longleftrightarrow> P R C \<or> is_func q ! R ! C"
    and "matrix q' ! R ! C = (if P R C \<and> \<not> is_func q ! R ! C then Some False else matrix q ! R ! C)"
  using assms by (simp_all add: reserves_def)

definition func_region :: "nat \<Rightarrow> nat list \<Rightarrow> nat \<Rightarrow> nat \<Rightarrow> bool" where
  "func_region n als R C \<longleftrightarrow>
     in_finder 0 0 R C \<or> in_finder 0 (int n - 7) R C \<or> in_finder (int n - 7) 0 R C \<or>
     in_timing n R C \<or> in_alignment n als R C \<or> in_format n R C"

definition func_colour :: "nat \<Rightarrow> nat list \<Rightarrow> nat \<Rightarrow> nat \<Rightarrow> bool option" where
  "func_colour n als R C =
     (if R = n - 8 \<and> C = 8 then Some True
      else if in_alignment n als R C then Some (alignment_black als R C)
      else if in_timing n R C then Some (timing_black R C)
      else if in_finder (int n - 7) 0 R C then Some (finder_black (int R - (int n - 7)) (int C))
      else if in_finder 0 (int n - 7) R C then Some (finder_black (int R) (int C - (int n - 7)))
      else if in_finder 0 0 R C then Some (finder_black (int R) (int C))
      else if in_format n R C then Some False
      else None)"

lemma func_canvas_spec:
  assumes "21 \<le> n" "spaced als" "R < n" "C < n"
  shows "wf_canvas n (func_canvas n als)"
    and "is_func (func_canvas n als) ! R ! C \<longleftrightarrow> func_region n als R C"
    and "matrix (func_canvas n als) ! R ! C = func_colour n als R C"
proof -
  let ?q0 = "empty_canvas n"
  let ?q1 = "draw_finder n 0 0 ?q0"
  let ?q2 = "draw_finder n 0 (int n - 7) ?q1"
  let ?q3 = "draw_finder n (int n - 7) 0 ?q2"
  let ?q4 = "draw_timing n ?q3"
  let ?q5 = "draw_alignment n als ?q4"
  let ?q6 = "set_func n (int n - 8) 8 True ?q5"
  note p1 = paints_finder [OF wf_empty_canvas [of n], of 0 0]
  note p2 = paints_finder [OF paints_wf [OF p1], of 0 "int n - 7"]
  note p3 = paints_finder [OF paints_wf [OF p2], of "int n - 7" 0]
  note p4 = paints_timing [OF paints_wf [OF p3]]
  note p5 = paints_alignment [OF paints_wf [OF p4] assms(2)]
  have p6: "paints n ?q5 ?q6 (\<lambda>R C. int R = int n - 8 \<and> int C = 8) (\<lambda>R C. True)"
    using paints_wf [OF p5] by (rule paints_set_func) simp
  have r: "reserves n ?q6 (func_canvas n als) (in_format n)"
    using reserve_format_spec [OF paints_wf [OF p5] assms(1)] by (simp only: func_canvas_def Let_def)
  show "wf_canvas n (func_canvas n als)" by (rule reserves_wf [OF r])
  have e: "\<not> is_func ?q0 ! R ! C" "matrix ?q0 ! R ! C = None"
    using assms by (simp_all add: empty_canvas_def)
  have d: "int R = int n - 8 \<and> int C = 8 \<longleftrightarrow> R = n - 8 \<and> C = 8" using assms by auto
  have df: "R = n - 8 \<and> C = 8 \<Longrightarrow> in_format n R C" using assms by (auto simp: in_format_def)
  note D = paintsD [OF _ assms(3,4)]
  have fs: "is_func (func_canvas n als) ! R ! C \<longleftrightarrow> in_format n R C \<or> is_func ?q6 ! R ! C"
    by (rule reservesD [OF r assms(3,4)])
  have f6: "is_func ?q6 ! R ! C \<longleftrightarrow> (R = n - 8 \<and> C = 8) \<or> is_func ?q5 ! R ! C"
    unfolding D(1) [OF p6] d ..
  have f5: "is_func ?q5 ! R ! C \<longleftrightarrow> in_alignment n als R C \<or> in_timing n R C \<or>
       in_finder (int n - 7) 0 R C \<or> in_finder 0 (int n - 7) R C \<or> in_finder 0 0 R C"
    unfolding D(1) [OF p5] D(1) [OF p4] D(1) [OF p3] D(1) [OF p2] D(1) [OF p1] using e by simp
  show "is_func (func_canvas n als) ! R ! C \<longleftrightarrow> func_region n als R C"
    unfolding fs f6 f5 func_region_def using df by blast
  have m6: "matrix (func_canvas n als) ! R ! C =
      (if in_format n R C \<and> \<not> is_func ?q6 ! R ! C then Some False else matrix ?q6 ! R ! C)"
    by (rule reservesD [OF r assms(3,4)])
  have m5: "matrix ?q6 ! R ! C = (if R = n - 8 \<and> C = 8 then Some True else matrix ?q5 ! R ! C)"
    unfolding D(2) [OF p6] d ..
  have m4: "matrix ?q5 ! R ! C = (if in_alignment n als R C then Some (alignment_black als R C)
      else if in_timing n R C then Some (timing_black R C)
      else if in_finder (int n - 7) 0 R C then Some (finder_black (int R - (int n - 7)) (int C))
      else if in_finder 0 (int n - 7) R C then Some (finder_black (int R) (int C - (int n - 7)))
      else if in_finder 0 0 R C then Some (finder_black (int R) (int C)) else None)"
    unfolding D(2) [OF p5] D(2) [OF p4] D(2) [OF p3] D(2) [OF p2] D(2) [OF p1] using e by simp
  show "matrix (func_canvas n als) ! R ! C = func_colour n als R C"
    unfolding m6 m5 m4 f6 f5 func_colour_def using df by auto
qed

end
