(* ===== verification/Qr_Symbol.thy ===== *)
theory Qr_Symbol
  imports Qr_Matrix
begin

text \<open>
  What the symbol of generate_qr_matrix looks like, for every text: the placement loop as a
  walk over a list of positions, the function patterns and the format bits in the result,
  the value of the data modules, and the column the placement never reaches.
\<close>

section \<open>The order in which modules are visited\<close>

definition column_visit :: "nat \<Rightarrow> bool \<Rightarrow> int \<Rightarrow> (nat \<times> nat) list" where
  "column_visit n upw right =
     (let right = (if right = 6 then right - 1 else right)
      in concat (map (\<lambda>vert. let r = (if upw then n - 1 - vert else vert)
                     in [(r, nat right), (r, nat (right - 1))]) [0..<n]))"

fun visits :: "nat \<Rightarrow> bool \<Rightarrow> int list \<Rightarrow> (nat \<times> nat) list" where
  "visits n upw [] = []"
| "visits n upw (right # rs) = column_visit n upw right @ visits n (\<not> upw) rs"

definition data_positions :: "nat \<Rightarrow> bool list list \<Rightarrow> (nat \<times> nat) list" where
  "data_positions n func =
     filter (\<lambda>(r, c). \<not> func ! r ! c) (visits n True (py_range (int n - 1) 0 (- 2)))"

text \<open>Bit k of the stream of code words, most significant bit first, and zeros after its end.\<close>

definition stream_bit :: "byte list \<Rightarrow> nat \<Rightarrow> bool" where
  "stream_bit cws k \<longleftrightarrow>
     k < 8 * length cws \<and> drop_bit (7 - k mod 8) (unat (cws ! (k div 8))) AND 1 = 1"

definition put_stream :: "byte list \<Rightarrow> nat \<Rightarrow> (nat \<times> nat) list \<Rightarrow> bool option list list \<Rightarrow> bool option list list" where
  "put_stream cws k ps m = fold (\<lambda>(k, r, c). put r c (Some (stream_bit cws k))) (enumerate k ps) m"

lemma put_stream_simps [simp]:
  "put_stream cws k [] m = m"
  "put_stream cws k ((r, c) # ps) m = put_stream cws (Suc k) ps (put r c (Some (stream_bit cws k)) m)"
  by (simp_all add: put_stream_def)

lemma put_stream_append:
  "put_stream cws k (ps @ qs) m = put_stream cws (k + length ps) qs (put_stream cws k ps m)"
  by (induction ps arbitrary: k m) auto

definition at_bit :: "byte list \<Rightarrow> nat \<Rightarrow> placer \<Rightarrow> bool" where
  "at_bit cws k p \<longleftrightarrow> byte_idx p = min k (8 * length cws) div 8 \<and>
     bit_idx p = 7 - int (min k (8 * length cws) mod 8)"

lemma place_module_skip: "func ! r ! c \<Longrightarrow> place_module cws func r c p = p"
  by (simp add: place_module_def)

lemma place_module_up [simp]: "up (place_module cws func r c p) = up p"
  by (simp add: place_module_def Let_def)

lemma place_module_step:
  assumes "at_bit cws k p" "\<not> func ! r ! c"
  shows "at_bit cws (Suc k) (place_module cws func r c p)"
    and "placed (place_module cws func r c p) = put r c (Some (stream_bit cws k)) (placed p)"
proof -
  show "at_bit cws (Suc k) (place_module cws func r c p)"
  proof (cases "k < 8 * length cws")
    case True
    then have b: "byte_idx p = k div 8" "bit_idx p = 7 - int (k mod 8)" "k div 8 < length cws"
      using assms(1) by (auto simp: at_bit_def)
    have "min (Suc k) (8 * length cws) = Suc k" using True by simp
    then show ?thesis
      using assms(2) b by (auto simp: at_bit_def place_module_def Let_def div_Suc mod_Suc)
  next
    case False
    then have "byte_idx p = length cws" "bit_idx p = 7"
      using assms(1) by (auto simp: at_bit_def min_def)
    with False assms(2) show ?thesis
      by (simp add: at_bit_def place_module_def min_def)
  qed
  show "placed (place_module cws func r c p) = put r c (Some (stream_bit cws k)) (placed p)"
  proof (cases "k < 8 * length cws")
    case True
    then have b: "byte_idx p = k div 8" "bit_idx p = 7 - int (k mod 8)" "k div 8 < length cws"
      using assms(1) by (auto simp: at_bit_def)
    have "nat (7 - int (k mod 8)) = 7 - k mod 8" by simp
    with True b assms(2) show ?thesis
      by (simp add: place_module_def Let_def stream_bit_def)
  next
    case False
    then have "byte_idx p = length cws"
      using assms(1) by (auto simp: at_bit_def min_def)
    with False assms(2) show ?thesis
      by (simp add: place_module_def stream_bit_def)
  qed
qed

definition place_list :: "byte list \<Rightarrow> bool list list \<Rightarrow> (nat \<times> nat) list \<Rightarrow> placer \<Rightarrow> placer" where
  "place_list cws func ps p = fold (\<lambda>(r, c). place_module cws func r c) ps p"

lemma place_list_simps [simp]:
  "place_list cws func [] p = p"
  "place_list cws func ((r, c) # ps) p = place_list cws func ps (place_module cws func r c p)"
  "place_list cws func (ps @ qs) p = place_list cws func qs (place_list cws func ps p)"
  by (simp_all add: place_list_def)

lemma place_list_up [simp]: "up (place_list cws func ps p) = up p"
proof (induction ps arbitrary: p)
  case (Cons rc ps)
  then show ?case by (cases rc) simp
qed simp

lemma place_list_spec:
  fixes ps func
  assumes "at_bit cws k p"
  defines "ds \<equiv> filter (\<lambda>(r, c). \<not> func ! r ! c) ps"
  shows "at_bit cws (k + length ds) (place_list cws func ps p) \<and>
    placed (place_list cws func ps p) = put_stream cws k ds (placed p)"
  using assms(1) unfolding ds_def
proof (induction ps arbitrary: k p)
  case (Cons rc ps)
  obtain r c where rc: "rc = (r, c)" by (cases rc) auto
  show ?case
  proof (cases "func ! r ! c")
    case True
    with Cons rc show ?thesis by (simp add: place_module_skip)
  next
    case False
    note s = place_module_step [OF Cons.prems False]
    from Cons.IH [OF s(1)] s(2) False show ?thesis by (simp add: rc)
  qed
qed simp

lemma place_column_eq:
  "place_column cws func n right p =
    (place_list cws func (column_visit n (up p) right) p)\<lparr>up := \<not> up p\<rparr>"
proof -
  let ?right = "if right = 6 then right - 1 else right"
  let ?row = "\<lambda>upw vert. if upw then n - 1 - vert else vert"
  have "fold (\<lambda>vert p. let r = ?row (up p) vert
          in fold (\<lambda>c. place_module cws func r (nat c)) [?right, ?right - 1] p) vs p
      = place_list cws func (concat (map (\<lambda>vert. let r = ?row (up p) vert
          in [(r, nat ?right), (r, nat (?right - 1))]) vs)) p" for vs p
    by (induction vs arbitrary: p) (simp_all add: Let_def)
  then show ?thesis
    by (simp add: place_column_def column_visit_def Let_def)
qed

lemma place_columns_spec:
  fixes func n rights
  assumes "at_bit cws k p"
  defines "ds \<equiv> filter (\<lambda>(r, c). \<not> func ! r ! c) (visits n (up p) rights)"
  shows "placed (fold (place_column cws func n) rights p) = put_stream cws k ds (placed p)"
  using assms(1) unfolding ds_def
proof (induction rights arbitrary: k p)
  case (Cons right rights)
  let ?ps = "column_visit n (up p) right"
  let ?p = "(place_list cws func ?ps p)\<lparr>up := \<not> up p\<rparr>"
  have "at_bit cws (k + length (filter (\<lambda>(r, c). \<not> func ! r ! c) ?ps)) ?p"
    using place_list_spec [OF Cons.prems, of func ?ps] by (simp add: at_bit_def)
  from Cons.IH [OF this] place_list_spec [OF Cons.prems, of func ?ps] show ?case
    by (simp add: place_column_eq put_stream_append)
qed simp

lemma place_data_eq:
  "place_data cws n q = put_stream cws 0 (data_positions n (is_func q)) (matrix q)"
proof -
  have "at_bit cws 0 \<lparr>byte_idx = 0, bit_idx = 7, up = True, placed = matrix q\<rparr>"
    by (simp add: at_bit_def)
  from place_columns_spec [OF this, of "is_func q" n "py_range (int n - 1) 0 (- 2)"]
  show ?thesis by (simp add: place_data_def data_positions_def)
qed

lemma dims_put_stream [simp]: "dims n m \<Longrightarrow> dims n (put_stream cws k ps m)"
  by (induction ps arbitrary: k m) auto

lemma put_stream_other:
  "dims n m \<Longrightarrow> R < n \<Longrightarrow> C < n \<Longrightarrow> (R, C) \<notin> set ps \<Longrightarrow> put_stream cws k ps m ! R ! C = m ! R ! C"
  by (induction ps arbitrary: k m) (auto simp: put_nth split: if_splits)

lemma put_stream_nth:
  assumes "dims n m" "R < n" "C < n" "j < length ps" "ps ! j = (R, C)" "(R, C) \<notin> set (drop (Suc j) ps)"
  shows "put_stream cws k ps m ! R ! C = Some (stream_bit cws (k + j))"
proof -
  have s: "ps = take j ps @ (R, C) # drop (Suc j) ps"
    using assms(4,5) by (metis id_take_nth_drop)
  have "put_stream cws k ps m ! R ! C =
      put_stream cws k (take j ps @ (R, C) # drop (Suc j) ps) m ! R ! C"
    using s by simp
  also have "\<dots> = Some (stream_bit cws (k + j))"
    using assms put_stream_other [OF _ assms(2,3,6)]
    by (simp add: put_stream_append put_nth [where n = n])
  finally show ?thesis .
qed

section \<open>Facts about the seven versions\<close>

lemma VERSION_SPECS_size:
  "s \<in> set VERSION_SPECS \<Longrightarrow> 21 \<le> qr_size s \<and> qr_size s \<le> 45 \<and> qr_size s mod 4 = 1"
  by (auto simp: VERSION_SPECS_def)

lemma VERSION_SPECS_spaced: "s \<in> set VERSION_SPECS \<Longrightarrow> spaced (alignment s)"
  by (auto simp: VERSION_SPECS_def spaced_def)

lemma in_alignment_cases:
  assumes "s \<in> set VERSION_SPECS" "in_alignment (qr_size s) (alignment s) R C"
  obtains "near (qr_size s - 7) (qr_size s - 7) R C"
  | "qr_size s = 45" "near 6 22 R C" | "qr_size s = 45" "near 22 6 R C"
  | "qr_size s = 45" "near 22 22 R C" | "qr_size s = 45" "near 22 38 R C" | "qr_size s = 45" "near 38 22 R C"
  using assms by (auto simp: VERSION_SPECS_def in_alignment_def skip_alignment_def)

lemma in_alignment_range:
  assumes "s \<in> set VERSION_SPECS" "in_alignment (qr_size s) (alignment s) R C"
  shows "\<not> in_finder 0 0 R C \<and> \<not> in_finder 0 (int (qr_size s) - 7) R C \<and>
    \<not> in_finder (int (qr_size s) - 7) 0 R C \<and> \<not> in_format (qr_size s) R C"
  using VERSION_SPECS_size [OF assms(1)]
  by (rule_tac in_alignment_cases [OF assms]) (auto simp: in_finder_def in_format_def near_def)

section \<open>Writing the format bits\<close>

definition format_writes :: "nat \<Rightarrow> (nat \<times> nat \<times> bool) list" where
  "format_writes n =
     map (\<lambda>i. (8, i, get_fbit i)) [0..<6] @
     [(8, 7, get_fbit 6), (8, 8, get_fbit 7), (7, 8, get_fbit 8)] @
     map (\<lambda>i. (14 - i, 8, get_fbit i)) [9..<15] @
     map (\<lambda>i. (n - 1 - i, 8, get_fbit i)) [0..<8] @
     map (\<lambda>i. (8, n - 15 + i, get_fbit i)) [8..<15] @ [(n - 8, 8, True)]"

definition put_all :: "(nat \<times> nat \<times> 'a) list \<Rightarrow> 'a list list \<Rightarrow> 'a list list" where
  "put_all ws m = fold (\<lambda>(r, c, v). put r c v) ws m"

lemma put_all_simps [simp]:
  "put_all [] m = m" "put_all ((r, c, v) # ws) m = put_all ws (put r c v m)"
  "put_all (ws @ vs) m = put_all vs (put_all ws m)"
  by (simp_all add: put_all_def)

lemma put_all_map: "put_all (map (\<lambda>i. (f i, g i, h i)) is) m = fold (\<lambda>i. put (f i) (g i) (h i)) is m"
  by (induction "is" arbitrary: m) simp_all

lemma write_format_eq: "write_format n m = put_all (format_writes n) m"
  by (simp only: write_format_def Let_def format_writes_def put_all_simps put_all_map)

lemma dims_put_all [simp]: "dims n m \<Longrightarrow> dims n (put_all ws m)"
  by (induction ws arbitrary: m) auto

lemma put_all_other:
  "dims n m \<Longrightarrow> R < n \<Longrightarrow> C < n \<Longrightarrow> (\<And>v. (R, C, v) \<notin> set ws) \<Longrightarrow> put_all ws m ! R ! C = m ! R ! C"
proof (induction ws arbitrary: m)
  case (Cons w ws)
  obtain r c v where w: "w = (r, c, v)" by (cases w) auto
  with Cons.prems(4) [of v] have "\<not> (R = r \<and> C = c)" by auto
  with Cons w show ?case by (auto simp: put_nth)
qed simp

text \<open>Where all writes to a position agree, the position holds their value.\<close>

lemma put_all_agree:
  assumes "dims n m" "R < n" "C < n" "(R, C, v) \<in> set ws" "\<forall>v'. (R, C, v') \<in> set ws \<longrightarrow> v' = v"
  shows "put_all ws m ! R ! C = v"
  using assms(1,4,5)
proof (induction ws arbitrary: m)
  case (Cons w ws)
  obtain r c v1 where w: "w = (r, c, v1)" by (cases w)
  have d: "dims n (put r c v1 m)" using Cons.prems(1) by simp
  show ?case
  proof (cases "(R, C, v) \<in> set ws")
    case True
    then have "put_all ws (put r c v1 m) ! R ! C = v"
      by (rule Cons.IH [OF d]) (use Cons.prems(3) in \<open>metis list.set_intros(2)\<close>)
    then show ?thesis by (simp add: w)
  next
    case False
    with Cons.prems(2) have e: "r = R" "c = C" "v1 = v" by (auto simp: w)
    have "(R, C, v') \<notin> set ws" for v' using Cons.prems(3) False by (metis list.set_intros(2))
    then have "put_all ws (put r c v1 m) ! R ! C = put r c v1 m ! R ! C"
      using d assms(2,3) by (intro put_all_other)
    then show ?thesis
      using put_nth [OF Cons.prems(1) assms(2,3)] by (simp add: w e)
  qed
qed simp

lemma get_fbits:
  "get_fbit 0 = False" "get_fbit (Suc 0) = False" "get_fbit 2 = True" "get_fbit 3 = False" "get_fbit 4 = False"
  "get_fbit 5 = False" "get_fbit 6 = True" "get_fbit 7 = True" "get_fbit 8 = True" "get_fbit 9 = True"
  "get_fbit 10 = True" "get_fbit 11 = False" "get_fbit 12 = True" "get_fbit 13 = True" "get_fbit 14 = True"
  by (simp_all add: get_fbit_def format_bits_def)

text \<open>
  The modules the format bits are written to: the reserved strips without the two modules
  they share with the timing patterns.
\<close>

definition format_written :: "nat \<Rightarrow> nat \<Rightarrow> nat \<Rightarrow> bool" where
  "format_written n R C \<longleftrightarrow> in_format n R C \<and> \<not> (R = 6 \<and> C = 8) \<and> \<not> (R = 8 \<and> C = 6)"

lemma format_writes_written:
  "21 \<le> n \<Longrightarrow> (R, C, v) \<in> set (format_writes n) \<Longrightarrow> format_written n R C"
  by (auto simp: format_writes_def format_written_def in_format_def)

lemma write_format_other:
  "21 \<le> n \<Longrightarrow> dims n m \<Longrightarrow> R < n \<Longrightarrow> C < n \<Longrightarrow> \<not> format_written n R C \<Longrightarrow>
     write_format n m ! R ! C = m ! R ! C"
  unfolding write_format_eq using format_writes_written
  by (intro put_all_other [where n = n]) blast+

text \<open>The two positions of each format bit, as the code writes them.\<close>

definition fpos1 :: "nat \<Rightarrow> nat \<times> nat" where
  "fpos1 i = (if i < 6 then (8, i) else if i = 6 then (8, 7) else if i = 7 then (8, 8)
     else if i = 8 then (7, 8) else (14 - i, 8))"

definition fpos2 :: "nat \<Rightarrow> nat \<Rightarrow> nat \<times> nat" where
  "fpos2 n i = (if i < 8 then (n - 1 - i, 8) else (8, n - 15 + i))"

lemma less_15_cases:
  "i < 15 \<longleftrightarrow> i \<in> {14, 13, 12, 11, 10, 9, 8, 7, 6, 5, 4, 3, 2, Suc 0, 0 :: nat}"
  unfolding insert_iff empty_iff by presburger

lemma format_ranges:
  "[0..<6] = [0, Suc 0, 2, 3, 4, 5]" "[9..<15] = [9, 10, 11, 12, 13, 14]"
  "[0..<8] = [0, Suc 0, 2, 3, 4, 5, 6, 7]" "[8..<15] = [8, 9, 10, 11, 12, 13, 14]"
  by (simp_all add: upt_rec)

lemma format_writes_list:
  "format_writes n =
    [(8, 0, False), (8, Suc 0, False), (8, 2, True), (8, 3, False), (8, 4, False), (8, 5, False),
     (8, 7, True), (8, 8, True), (7, 8, True), (5, 8, True), (4, 8, True), (3, 8, False),
     (2, 8, True), (Suc 0, 8, True), (0, 8, True),
     (n - 1, 8, False), (n - 2, 8, False), (n - 3, 8, True), (n - 4, 8, False), (n - 5, 8, False),
     (n - 6, 8, False), (n - 7, 8, True), (n - 8, 8, True),
     (8, n - 15 + 8, True), (8, n - 15 + 9, True), (8, n - 15 + 10, True), (8, n - 15 + 11, False),
     (8, n - 15 + 12, True), (8, n - 15 + 13, True), (8, n - 15 + 14, True), (n - 8, 8, True)]"
  by (simp add: format_writes_def format_ranges get_fbits)

lemma write_format_bits:
  assumes "21 \<le> n" "dims n m" "i < 15"
  shows "write_format n m ! fst (fpos1 i) ! snd (fpos1 i) = get_fbit i"
    and "write_format n m ! fst (fpos2 n i) ! snd (fpos2 n i) = get_fbit i"
proof -
  obtain k where k: "n = 21 + k" using assms(1) le_Suc_ex by blast
  show "write_format n m ! fst (fpos1 i) ! snd (fpos1 i) = get_fbit i"
    unfolding write_format_eq
    by (rule put_all_agree [OF assms(2)]; use assms(3) in \<open>unfold less_15_cases\<close>; elim insertE emptyE;
        simp add: format_writes_list fpos1_def get_fbits k)
  show "write_format n m ! fst (fpos2 n i) ! snd (fpos2 n i) = get_fbit i"
    unfolding write_format_eq
    by (rule put_all_agree [OF assms(2)]; use assms(3) in \<open>unfold less_15_cases\<close>; elim insertE emptyE;
        simp add: format_writes_list fpos2_def get_fbits k)
qed

lemma in_alignment_timing:
  assumes "s \<in> set VERSION_SPECS" "in_alignment (qr_size s) (alignment s) R C" "in_timing (qr_size s) R C"
  shows "alignment_black (alignment s) R C = timing_black R C"
proof -
  have s: "qr_size s = 45 \<and> alignment s = [6, 22, 38]" if "qr_size s = 45"
    using assms(1) that by (auto simp: VERSION_SPECS_def)
  have bnd: "21 \<le> qr_size s" using VERSION_SPECS_size [OF assms(1)] by simp
  note b = alignment_black_near [OF VERSION_SPECS_spaced [OF assms(1)]]
  show ?thesis
  proof (rule in_alignment_cases [OF assms(1,2)])
    assume "qr_size s = 45" "near 6 22 R C"
    then have "C = 20 \<or> C = 21 \<or> C = 22 \<or> C = 23 \<or> C = 24" by (auto simp: near_def)
    with assms(3) b [OF _ _ \<open>near 6 22 R C\<close>] s [OF \<open>qr_size s = 45\<close>] show ?thesis
      by (auto simp: in_timing_def timing_black_def)
  next
    assume "qr_size s = 45" "near 22 6 R C"
    then have "R = 20 \<or> R = 21 \<or> R = 22 \<or> R = 23 \<or> R = 24" by (auto simp: near_def)
    with assms(3) b [OF _ _ \<open>near 22 6 R C\<close>] s [OF \<open>qr_size s = 45\<close>] show ?thesis
      by (auto simp: in_timing_def timing_black_def)
  qed (use assms(3) bnd in \<open>auto simp: near_def in_timing_def\<close>)
qed

section \<open>The finished symbol\<close>

definition qr_cell :: "byte list \<Rightarrow> nat \<Rightarrow> nat \<Rightarrow> bool" where
  "qr_cell u R C = qr_matrix u ! R ! C"

definition spec_of :: "byte list \<Rightarrow> version_spec" where
  "spec_of u = choose_spec (length u)"

definition positions_of :: "version_spec \<Rightarrow> (nat \<times> nat) list" where
  "positions_of s = data_positions (qr_size s) (is_func (func_canvas (qr_size s) (alignment s)))"

lemma spec_of_in: "spec_of u \<in> set VERSION_SPECS"
  by (simp add: spec_of_def choose_spec_cases)

lemma func_canvas_of:
  assumes "s \<in> set VERSION_SPECS" "R < qr_size s" "C < qr_size s"
  shows "wf_canvas (qr_size s) (func_canvas (qr_size s) (alignment s))"
    and "is_func (func_canvas (qr_size s) (alignment s)) ! R ! C \<longleftrightarrow> func_region (qr_size s) (alignment s) R C"
    and "matrix (func_canvas (qr_size s) (alignment s)) ! R ! C = func_colour (qr_size s) (alignment s) R C"
  using func_canvas_spec [OF _ VERSION_SPECS_spaced [OF assms(1)] assms(2,3)] VERSION_SPECS_size [OF assms(1)]
  by simp_all

lemma dims_apply_mask [simp]: "dims n (apply_mask n func m)"
  by (simp add: dims_def apply_mask_def)

lemma apply_mask_nth:
  "R < n \<Longrightarrow> C < n \<Longrightarrow> apply_mask n func m ! R ! C =
    (if func ! R ! C then py_bool (m ! R ! C) else py_bool (m ! R ! C) \<noteq> ((R + C) mod 2 = 0))"
  by (simp add: apply_mask_def)

lemma qr_matrix_unfold:
  "qr_matrix u = write_format (qr_size (spec_of u))
     (apply_mask (qr_size (spec_of u)) (is_func (func_canvas (qr_size (spec_of u)) (alignment (spec_of u))))
       (put_stream (final_codewords u) 0 (positions_of (spec_of u))
         (matrix (func_canvas (qr_size (spec_of u)) (alignment (spec_of u))))))"
  by (simp add: qr_matrix_def Let_def spec_of_def positions_of_def place_data_eq)

lemma dims_qr_matrix: "dims (qr_size (spec_of u)) (qr_matrix u)"
  by (simp add: qr_matrix_unfold write_format_eq)

lemma positions_not_func: "(R, C) \<in> set (positions_of s) \<Longrightarrow>
    \<not> is_func (func_canvas (qr_size s) (alignment s)) ! R ! C"
  by (auto simp: positions_of_def data_positions_def)

lemma qr_cell_other:
  assumes "R < qr_size (spec_of u)" "C < qr_size (spec_of u)" "\<not> format_written (qr_size (spec_of u)) R C"
  shows "qr_cell u R C = apply_mask (qr_size (spec_of u))
      (is_func (func_canvas (qr_size (spec_of u)) (alignment (spec_of u))))
       (put_stream (final_codewords u) 0 (positions_of (spec_of u))
         (matrix (func_canvas (qr_size (spec_of u)) (alignment (spec_of u))))) ! R ! C"
  unfolding qr_cell_def qr_matrix_unfold
  using VERSION_SPECS_size [OF spec_of_in [of u]] assms by (intro write_format_other) auto

text \<open>A function module that no format bit is written to keeps the colour it was drawn in.\<close>

lemma qr_cell_func:
  assumes "R < qr_size (spec_of u)" "C < qr_size (spec_of u)" "\<not> format_written (qr_size (spec_of u)) R C"
    "func_region (qr_size (spec_of u)) (alignment (spec_of u)) R C"
  shows "qr_cell u R C = py_bool (func_colour (qr_size (spec_of u)) (alignment (spec_of u)) R C)"
proof -
  note f = func_canvas_of [OF spec_of_in assms(1,2)]
  have "(R, C) \<notin> set (positions_of (spec_of u))"
    using positions_not_func f(2) assms(4) by blast
  moreover have "dims (qr_size (spec_of u)) (matrix (func_canvas (qr_size (spec_of u)) (alignment (spec_of u))))"
    using f(1) by (simp add: wf_canvas_def)
  ultimately show ?thesis
    using assms f by (simp add: qr_cell_other apply_mask_nth put_stream_other [where n = "qr_size (spec_of u)"])
qed

text \<open>A module outside every function pattern shows the last bit placed on it, masked.\<close>

lemma qr_cell_data:
  assumes "R < qr_size (spec_of u)" "C < qr_size (spec_of u)"
    "\<not> func_region (qr_size (spec_of u)) (alignment (spec_of u)) R C"
  shows "qr_cell u R C \<longleftrightarrow>
    py_bool (put_stream (final_codewords u) 0 (positions_of (spec_of u))
      (matrix (func_canvas (qr_size (spec_of u)) (alignment (spec_of u)))) ! R ! C) \<noteq> ((R + C) mod 2 = 0)"
  using assms func_canvas_of [OF spec_of_in assms(1,2)]
  by (subst qr_cell_other) (auto simp: func_region_def format_written_def apply_mask_nth)

lemma qr_data_modules:
  assumes "j < length (positions_of (spec_of u))" "positions_of (spec_of u) ! j = (R, C)"
    "(R, C) \<notin> set (drop (Suc j) (positions_of (spec_of u)))"
    "R < qr_size (spec_of u)" "C < qr_size (spec_of u)"
  shows "qr_cell u R C \<longleftrightarrow> stream_bit (final_codewords u) j \<noteq> ((R + C) mod 2 = 0)"
proof -
  note f = func_canvas_of [OF spec_of_in assms(4,5)]
  have "(R, C) \<in> set (positions_of (spec_of u))" using assms(1,2) by (metis nth_mem)
  then have "\<not> func_region (qr_size (spec_of u)) (alignment (spec_of u)) R C"
    using positions_not_func f(2) by blast
  moreover have "dims (qr_size (spec_of u)) (matrix (func_canvas (qr_size (spec_of u)) (alignment (spec_of u))))"
    using f(1) by (simp add: wf_canvas_def)
  ultimately show ?thesis
    using assms put_stream_nth [of "qr_size (spec_of u)" _ R C j "positions_of (spec_of u)"]
    by (simp add: qr_cell_data py_bool_def)
qed

definition finder_corner :: "nat \<Rightarrow> nat \<Rightarrow> nat \<Rightarrow> bool" where
  "finder_corner n r0 c0 \<longleftrightarrow> (r0, c0) \<in> {(0, 0), (0, n - 7), (n - 7, 0)}"

lemma qr_timing_patterns:
  assumes "8 \<le> i" "i + 8 < qr_size (spec_of u)"
  shows "qr_cell u 6 i = (i mod 2 = 0)" and "qr_cell u i 6 = (i mod 2 = 0)"
proof -
  let ?n = "qr_size (spec_of u)" and ?a = "alignment (spec_of u)"
  have *: "qr_cell u R C = timing_black R C" if "in_timing ?n R C" for R C
  proof -
    have nf: "\<not> format_written ?n R C" "\<not> (R = ?n - 8 \<and> C = 8)" "R < ?n" "C < ?n"
      using that VERSION_SPECS_size [OF spec_of_in, of u] by (auto simp: in_timing_def in_format_def format_written_def)
    have "qr_cell u R C = py_bool (func_colour ?n ?a R C)"
      using nf that by (intro qr_cell_func) (simp_all add: func_region_def)
    also have "func_colour ?n ?a R C = Some (timing_black R C)"
      using in_alignment_timing [OF spec_of_in, of u] that nf by (auto simp: func_colour_def)
    finally show ?thesis by (simp add: py_bool_def)
  qed
  show "qr_cell u 6 i = (i mod 2 = 0)" "qr_cell u i 6 = (i mod 2 = 0)"
    using * [of 6 i] * [of i 6] assms by (auto simp: in_timing_def timing_black_def)
qed

lemma qr_format_copies:
  assumes "i < 15"
  shows "qr_cell u (fst (fpos1 i)) (snd (fpos1 i)) = get_fbit i"
    and "qr_cell u (fst (fpos2 (qr_size (spec_of u)) i)) (snd (fpos2 (qr_size (spec_of u)) i)) = get_fbit i"
proof -
  have n: "21 \<le> qr_size (spec_of u)" using VERSION_SPECS_size [OF spec_of_in] by simp
  show "qr_cell u (fst (fpos1 i)) (snd (fpos1 i)) = get_fbit i"
    unfolding qr_cell_def qr_matrix_unfold by (rule write_format_bits [OF n dims_apply_mask assms])
  show "qr_cell u (fst (fpos2 (qr_size (spec_of u)) i)) (snd (fpos2 (qr_size (spec_of u)) i)) = get_fbit i"
    unfolding qr_cell_def qr_matrix_unfold by (rule write_format_bits [OF n dims_apply_mask assms])
qed

section \<open>How often the placement visits a module\<close>

definition column_hit :: "int \<Rightarrow> nat \<Rightarrow> bool" where
  "column_hit right C \<longleftrightarrow>
     (let right = (if right = 6 then right - 1 else right) in C = nat right \<or> C = nat (right - 1))"

lemma count_list_append_simp: "count_list (xs @ ys) x = count_list xs x + count_list ys x"
  by (induction xs) simp_all

lemma count_pairs:
  assumes "a \<noteq> b" "distinct vs" "inj_on f (set vs)"
  shows "count_list (concat (map (\<lambda>v. [(f v, a), (f v, b)]) vs)) (R, C) =
    (if R \<in> f ` set vs \<and> (C = a \<or> C = b) then 1 else 0)"
  using assms(2,3)
proof (induction vs)
  case (Cons v vs)
  have "f v \<notin> f ` set vs" using Cons.prems by auto
  with Cons assms(1) show ?case by auto
qed simp

lemma count_column_visit:
  assumes "1 < right" "R < n"
  shows "count_list (column_visit n upw right) (R, C) = (if column_hit right C then 1 else 0)"
proof -
  let ?right = "if right = 6 then right - 1 else right"
  let ?f = "\<lambda>vert. if upw then n - 1 - vert else vert"
  have "nat ?right \<noteq> nat (?right - 1)" using assms(1) by auto
  moreover have "inj_on ?f (set [0..<n])" by (auto simp: inj_on_def)
  moreover have "R \<in> ?f ` set [0..<n]"
    using assms(2) by (auto simp: image_iff intro!: bexI [where x = "n - 1 - R"])
  ultimately show ?thesis
    using count_pairs [of "nat ?right" "nat (?right - 1)" "[0..<n]" ?f R C]
    by (simp add: column_visit_def column_hit_def Let_def)
qed

lemma count_visits:
  assumes "\<forall>right \<in> set rights. 1 < right" "R < n"
  shows "count_list (visits n upw rights) (R, C) = length (filter (\<lambda>right. column_hit right C) rights)"
  using assms by (induction rights arbitrary: upw) (simp_all add: count_list_append_simp count_column_visit)

lemma count_list_filter: "count_list (filter P xs) x = (if P x then count_list xs x else 0)"
  by (induction xs) auto

lemma distinct_py_range_down2: "distinct (py_range a 0 (- 2))"
  by (auto simp: py_range_def Let_def distinct_map inj_on_def)

lemma rights_mem:
  assumes "n mod 4 = (1 :: nat)"
  shows "x \<in> set (py_range (int n - 1) 0 (- 2)) \<longleftrightarrow> 0 < x \<and> x \<le> int n - 1 \<and> even x"
proof -
  have "even (int n - 1)" using assms by presburger
  then show ?thesis by (auto simp: set_py_range_down2 even_iff_mod_2_eq_zero [symmetric])
qed

lemma column_hit_iff:
  "0 < right \<Longrightarrow> column_hit right C \<longleftrightarrow>
     (if right = 6 then C = 5 \<or> C = 4 else right = int C \<or> right = int C + 1)"
  by (auto simp: column_hit_def)

lemma column_hits:
  assumes "n mod 4 = 1" "21 \<le> n" "C < n" "C \<noteq> 6"
  shows "length (filter (\<lambda>right. column_hit right C) (py_range (int n - 1) 0 (- 2))) =
    (if C = 0 then 0 else if C = 4 then 2 else 1)"
proof -
  let ?S = "{right \<in> set (py_range (int n - 1) 0 (- 2)). column_hit right C}"
  let ?T = "if C = 0 then {} else if C = 4 then {4, 6} else if even C then {int C} else {int C + 1}"
  have odd: "odd n" using assms(1) by presburger
  have "x \<in> ?S \<longleftrightarrow> x \<in> ?T" for x
  proof -
    have "x \<in> ?S \<longleftrightarrow> 0 < x \<and> x \<le> int n - 1 \<and> even x \<and>
        (if x = 6 then C = 5 \<or> C = 4 else x = int C \<or> x = int C + 1)"
      by (auto simp: rights_mem [OF assms(1)] column_hit_iff)
    also have "\<dots> \<longleftrightarrow> x \<in> ?T"
      using assms(2-4) odd by (auto; presburger)
    finally show ?thesis .
  qed
  then have "?S = ?T" by blast
  then have "card ?S = (if C = 0 then 0 else if C = 4 then 2 else 1)" by simp
  then show ?thesis
    by (simp add: distinct_card [symmetric] distinct_py_range_down2)
qed

text \<open>
  Every module outside the function patterns is visited exactly once, but for the first
  column, which is never visited, and the fifth, which is visited twice.
\<close>

lemma qr_visit_counts:
  assumes "s \<in> set VERSION_SPECS" "R < qr_size s" "C < qr_size s"
    "\<not> func_region (qr_size s) (alignment s) R C"
  shows "count_list (positions_of s) (R, C) = (if C = 0 then 0 else if C = 4 then 2 else 1)"
proof -
  note b = VERSION_SPECS_size [OF assms(1)]
  have "C \<noteq> 6"
    using assms(2,4) b by (auto simp: func_region_def in_finder_def in_timing_def in_format_def)
  moreover have "\<forall>right \<in> set (py_range (int (qr_size s) - 1) 0 (- 2)). 1 < right"
  proof
    fix right
    assume "right \<in> set (py_range (int (qr_size s) - 1) 0 (- 2))"
    then have "0 < right" "even right" using b by (simp_all add: rights_mem)
    then show "1 < right" by presburger
  qed
  ultimately show ?thesis
    using assms b func_canvas_of(2) [OF assms(1-3)]
    by (simp add: positions_of_def data_positions_def count_list_filter count_visits column_hits)
qed

lemma qr_column_0:
  assumes "9 \<le> R" "R + 8 < qr_size (spec_of u)"
  shows "qr_cell u R 0 = (R mod 2 = 0)"
proof -
  let ?n = "qr_size (spec_of u)" and ?a = "alignment (spec_of u)"
  note b = VERSION_SPECS_size [OF spec_of_in, of u]
  have al: "\<not> in_alignment ?n ?a R 0"
  proof
    assume "in_alignment ?n ?a R 0"
    then show False
      using b by (rule_tac in_alignment_cases [OF spec_of_in, of u R 0]) (auto simp: near_def)
  qed
  then have nf: "\<not> func_region ?n ?a R 0"
    using assms b by (auto simp: func_region_def in_finder_def in_timing_def in_format_def)
  have R: "R < ?n" "0 < ?n" using assms by auto
  have "count_list (positions_of (spec_of u)) (R, 0) = 0"
    using qr_visit_counts [OF spec_of_in R nf] by simp
  then have "(R, 0) \<notin> set (positions_of (spec_of u))" by (simp add: count_list_0_iff)
  moreover note f = func_canvas_of [OF spec_of_in R]
  moreover have "func_colour ?n ?a R 0 = None"
    using nf b by (auto simp: func_region_def func_colour_def)
  ultimately show ?thesis
    using R nf by (simp add: qr_cell_data put_stream_other [where n = ?n] wf_canvas_def py_bool_def)
qed

lemma last_occurrence:
  assumes "x \<in> set ps"
  obtains j where "j < length ps" "ps ! j = x" "x \<notin> set (drop (Suc j) ps)"
    "count_list (take j ps) x + 1 = count_list ps x"
proof -
  obtain ys zs where ps: "ps = ys @ x # zs" "x \<notin> set zs"
    using assms by (meson split_list_last)
  show ?thesis
    by (rule that [of "length ys"]) (use ps in \<open>simp_all add: nth_append count_list_append_simp\<close>)
qed

section \<open>Properties of the symbol\<close>

text \<open>In the symbol of every text the three corners hold finder patterns: each module of a
  finder pattern and its light border that lies in the symbol has the colour of the pattern,
  so no data bit, mask, timing, alignment or format module overwrites it.\<close>

lemma qr_finder_patterns:
  assumes "finder_corner (qr_size (spec_of u)) r0 c0" "in_finder (int r0) (int c0) R C"
    "R < qr_size (spec_of u)" "C < qr_size (spec_of u)"
  shows "qr_cell u R C = finder_black (int R - int r0) (int C - int c0)"
proof -
  let ?n = "qr_size (spec_of u)" and ?a = "alignment (spec_of u)"
  have n: "21 \<le> ?n" using VERSION_SPECS_size [OF spec_of_in] by simp
  have al: "\<not> in_alignment ?n ?a R C"
    using in_alignment_range [OF spec_of_in] assms(1,2) n by (auto simp: finder_corner_def of_nat_diff)
  have nf: "\<not> in_format ?n R C" "\<not> format_written ?n R C" "\<not> in_timing ?n R C" "\<not> (R = ?n - 8 \<and> C = 8)"
    using assms n by (auto simp: finder_corner_def in_finder_def in_format_def in_timing_def format_written_def)
  have "func_region ?n ?a R C"
    using assms(1,2) n by (auto simp: func_region_def finder_corner_def of_nat_diff)
  with nf have "qr_cell u R C = py_bool (func_colour ?n ?a R C)"
    using assms(3,4) by (intro qr_cell_func)
  also have "func_colour ?n ?a R C = Some (finder_black (int R - int r0) (int C - int c0))"
    using al nf assms(1,2) n
    by (auto simp: func_colour_def finder_corner_def in_finder_def of_nat_diff)
  finally show ?thesis by (simp add: py_bool_def)
qed

text \<open>The timing patterns alternate: between the finder patterns, module i of row 6 and of
  column 6 is dark exactly when i is even, in the symbol of every text, the alignment patterns
  of version 7 that cross them included.\<close>

lemma qr_timing_alternates:
  assumes "8 \<le> i" "i + 8 < qr_size (spec_of u)"
  shows "qr_cell u 6 i = (i mod 2 = 0) \<and> qr_cell u i 6 = (i mod 2 = 0)"
  using qr_timing_patterns [OF assms] by simp

text \<open>Both copies of the format word are in the finished symbol: copy one around the top
  left finder, copy two split over the other two, bit i of each at its position. The last
  module of the second copy in column 8, which the dark module also claims, holds bit 7, the
  value both writes agree on.\<close>

lemma qr_format_both_copies:
  assumes "i < 15"
  shows "qr_cell u (fst (fpos1 i)) (snd (fpos1 i)) = get_fbit i \<and>
    qr_cell u (fst (fpos2 (qr_size (spec_of u)) i)) (snd (fpos2 (qr_size (spec_of u)) i)) = get_fbit i"
  using qr_format_copies [OF assms] by simp

text \<open>C19: Every module outside the function patterns, the columns 0 and 4 apart, carries one
  bit of the code words: its position occurs exactly once in the order of placement, and the
  module shows that bit of the stream (most significant bit first, zeros after its end),
  inverted where row plus column is even.\<close>

theorem qr_bit_placement:
  assumes "R < qr_size (spec_of u)" "C < qr_size (spec_of u)"
    "\<not> func_region (qr_size (spec_of u)) (alignment (spec_of u)) R C" "C \<noteq> 0" "C \<noteq> 4"
  shows "\<exists>j < length (positions_of (spec_of u)). positions_of (spec_of u) ! j = (R, C) \<and>
    (\<forall>i < length (positions_of (spec_of u)). positions_of (spec_of u) ! i = (R, C) \<longrightarrow> i = j) \<and>
    (qr_cell u R C \<longleftrightarrow> stream_bit (final_codewords u) j \<noteq> ((R + C) mod 2 = 0))"
proof -
  let ?ps = "positions_of (spec_of u)"
  have c: "count_list ?ps (R, C) = 1"
    using qr_visit_counts [OF spec_of_in assms(1-3)] assms(4,5) by simp
  then have "(R, C) \<in> set ?ps" by (metis count_list_0_iff zero_neq_one)
  then obtain j where j: "j < length ?ps" "?ps ! j = (R, C)" "(R, C) \<notin> set (drop (Suc j) ?ps)"
      "count_list (take j ?ps) (R, C) + 1 = count_list ?ps (R, C)"
    by (rule last_occurrence)
  have u: "i = j" if "i < length ?ps" "?ps ! i = (R, C)" for i
  proof -
    have "(R, C) \<notin> set (take j ?ps)" using j(4) c by (simp add: count_list_0_iff)
    then have "\<not> i < j" using that j(1) by (metis in_set_conv_nth length_take min.absorb4 nth_take)
    moreover have "\<not> j < i"
    proof
      assume "j < i"
      then have "drop (Suc j) ?ps ! (i - Suc j) = (R, C)" "i - Suc j < length (drop (Suc j) ?ps)"
        using that by auto
      with j(3) show False by (metis nth_mem)
    qed
    ultimately show ?thesis by simp
  qed
  show ?thesis
    by (intro exI [of _ j] conjI allI impI) (fact j(1), fact j(2), erule (1) u,
      rule qr_data_modules [OF j(1-3) assms(1,2)])
qed

theorem qr_bit_placement_witness:
  "\<exists>j. positions_of (spec_of []) ! j = (9, 20) \<and>
    (qr_cell [] 9 20 \<longleftrightarrow> stream_bit (final_codewords []) j \<noteq> ((9 + 20 :: nat) mod 2 = 0))"
proof -
  have "9 < qr_size (spec_of [])" "20 < qr_size (spec_of [])"
      "\<not> func_region (qr_size (spec_of [])) (alignment (spec_of [])) 9 20" "(20 :: nat) \<noteq> 0" "(20 :: nat) \<noteq> 4"
    by (simp_all add: spec_of_def choose_spec_def VERSION_SPECS_def func_region_def in_finder_def
        in_timing_def in_format_def in_alignment_def)
  then obtain j where "positions_of (spec_of []) ! j = (9, 20)"
    "qr_cell [] 9 20 \<longleftrightarrow> stream_bit (final_codewords []) j \<noteq> ((9 + 20 :: nat) mod 2 = 0)"
    by (rule qr_bit_placement [THEN exE]) (elim conjE)
  then show ?thesis by (intro exI conjI)
qed

text \<open>C26: The assignment to right in the loop over the columns (lines 143 to 145) is lost in
  the next round, so the last pair of columns is 2 and 1: column 0 between the finder patterns
  never receives a bit and shows only the mask, and each data module of column 4 is written
  twice, an earlier bit of the stream being overwritten by a later one.\<close>

theorem qr_lost_columns:
  assumes "9 \<le> R" "R + 8 < qr_size (spec_of u)" "\<not> in_alignment (qr_size (spec_of u)) (alignment (spec_of u)) R 4"
  shows "qr_cell u R 0 = (R mod 2 = 0) \<and>
    (\<exists>i j. i < j \<and> j < length (positions_of (spec_of u)) \<and>
       positions_of (spec_of u) ! i = (R, 4) \<and> positions_of (spec_of u) ! j = (R, 4) \<and>
       (qr_cell u R 4 \<longleftrightarrow> stream_bit (final_codewords u) j \<noteq> (R mod 2 = 0)))"
proof -
  let ?n = "qr_size (spec_of u)" and ?ps = "positions_of (spec_of u)"
  have R: "R < ?n" "4 < ?n" using assms by auto
  have "\<not> func_region ?n (alignment (spec_of u)) R 4"
    using assms by (auto simp: func_region_def in_finder_def in_timing_def in_format_def)
  from qr_visit_counts [OF spec_of_in R this] have c: "count_list ?ps (R, 4) = 2" by simp
  then have "(R, 4) \<in> set ?ps" by (metis count_list_0_iff zero_neq_numeral)
  then obtain j where j: "j < length ?ps" "?ps ! j = (R, 4)" "(R, 4) \<notin> set (drop (Suc j) ?ps)"
      "count_list (take j ?ps) (R, 4) + 1 = count_list ?ps (R, 4)"
    by (rule last_occurrence)
  with c have "count_list (take j ?ps) (R, 4) \<noteq> 0" by simp
  then have "(R, 4) \<in> set (take j ?ps)" by (simp add: count_list_0_iff)
  then obtain i where "i < j" "?ps ! i = (R, 4)"
    using j(1) by (auto simp: in_set_conv_nth)
  moreover have "(R + 4) mod 2 = R mod 2" by presburger
  then have "qr_cell u R 4 \<longleftrightarrow> stream_bit (final_codewords u) j \<noteq> (R mod 2 = 0)"
    using qr_data_modules [OF j(1-3) R] by simp
  ultimately show ?thesis
    using j(1,2) qr_column_0 [OF assms(1,2)] by (intro conjI exI [where x = i] exI [where x = j])
qed

theorem qr_lost_columns_witness:
  "qr_cell [] 10 0 = ((10 :: nat) mod 2 = 0) \<and>
    (\<exists>i j. i < j \<and> j < length (positions_of (spec_of [])) \<and>
       positions_of (spec_of []) ! i = (10, 4) \<and> positions_of (spec_of []) ! j = (10, 4) \<and>
       (qr_cell [] 10 4 \<longleftrightarrow> stream_bit (final_codewords []) j \<noteq> ((10 :: nat) mod 2 = 0)))"
  by (rule qr_lost_columns)
     (simp_all add: spec_of_def choose_spec_def VERSION_SPECS_def in_alignment_def)

text \<open>
  The module in which the standard (ISO/IEC 18004, the first copy of the format information)
  puts bit i: the bits 0 to 7 go down column 8, the bits 8 to 14 leftwards along row 8.
\<close>

definition iso_fpos :: "nat \<Rightarrow> nat \<times> nat" where
  "iso_fpos i = (if i < 6 then (i, 8) else if i < 8 then (i + 1, 8)
     else if i = 8 then (8, 7) else (8, 14 - i))"

text \<open>C27: Read in the standard's order the format word comes out reversed: where the standard
  has bit i the symbol has bit 14 - i. The word is no palindrome, so a reader sees another
  word than the one lines 168 to 170 write.\<close>

theorem qr_format_reversed:
  "(\<forall>i \<in> {0..<15}. qr_cell u (fst (iso_fpos i)) (snd (iso_fpos i)) = get_fbit (14 - i)) \<and>
    map get_fbit [0..<15] \<noteq> rev (map get_fbit [0..<15])"
proof -
  have "qr_cell u (fst (iso_fpos i)) (snd (iso_fpos i)) = get_fbit (14 - i)" if "i < 15" for i
  proof -
    have "iso_fpos i = fpos1 (14 - i)"
      using that unfolding less_15_cases by (elim insertE emptyE) (simp_all add: iso_fpos_def fpos1_def)
    then show ?thesis using qr_format_copies(1) [of "14 - i" u] that by simp
  qed
  moreover have "map get_fbit [0..<15] ! 0 \<noteq> rev (map get_fbit [0..<15]) ! 0"
    by (simp add: rev_nth get_fbits)
  then have "map get_fbit [0..<15] \<noteq> rev (map get_fbit [0..<15])" by metis
  ultimately show ?thesis by simp
qed

theorem qr_format_reversed_witness:
  "qr_cell [] 8 0 = get_fbit 0 \<and> get_fbit 0 \<noteq> get_fbit 14"
proof -
  have "qr_cell [] (fst (iso_fpos 14)) (snd (iso_fpos 14)) = get_fbit (14 - 14)"
    by (rule bspec [OF conjunct1 [OF qr_format_reversed]]) simp
  then show ?thesis by (simp add: iso_fpos_def get_fbits)
qed

end
