(* ===== verification/Qr_Pixmap.thy ===== *)
theory Qr_Pixmap
  imports Qr_Symbol
begin

text \<open>
  get_qr_pixmap (qr_util.py, lines 188 to 222): the symbol of the qrcode package, or of
  generate_qr_matrix when that package is missing or raises, painted in squares of 8 pixels.
  The package is the parameter qrcode_matrix, None for any exception. The painter's calls
  are recorded as the list of the rectangles it fills; the pixmap was filled white before.
\<close>

record pixmap =
  total_dim :: int
  rects :: "(int \<times> int \<times> int \<times> int) list"

definition draw_matrix :: "bool list list \<Rightarrow> int \<Rightarrow> pixmap" where
  "draw_matrix m border =
     (let n = length m; scale = 8
      in \<lparr>total_dim = (int n + border * 2) * scale,
          rects = fold (\<lambda>r. fold (\<lambda>c rs.
            if m ! r ! c then rs @ [((int c + border) * scale, (int r + border) * scale, scale, scale)]
            else rs) [0..<n]) [0..<n] []\<rparr>)"

definition get_qr_pixmap :: "(nat list \<Rightarrow> bool list list option) \<Rightarrow> nat list \<Rightarrow> py_error + pixmap" where
  "get_qr_pixmap qrcode_matrix t =
     (case qrcode_matrix t of
        Some m \<Rightarrow> Inr (draw_matrix m 0)
      | None \<Rightarrow> (case generate_qr_matrix t of
            Inl e \<Rightarrow> Inl e
          | Inr m \<Rightarrow> Inr (draw_matrix m 4)))"

section \<open>The pixels\<close>

definition black_pixel :: "pixmap \<Rightarrow> int \<Rightarrow> int \<Rightarrow> bool" where
  "black_pixel p x y \<longleftrightarrow> (\<exists>(x0, y0, w, h) \<in> set (rects p). x0 \<le> x \<and> x < x0 + w \<and> y0 \<le> y \<and> y < y0 + h)"

lemma set_fold_if_append:
  "set (fold (\<lambda>c rs. if P c then rs @ [f c] else rs) cs rs0) = set rs0 \<union> f ` {c \<in> set cs. P c}"
  by (induction cs arbitrary: rs0) auto

lemma set_fold2_if_append:
  "set (fold (\<lambda>r. fold (\<lambda>c rs. if P r c then rs @ [f r c] else rs) cs) qs rs0) =
     set rs0 \<union> {f r c | r c. r \<in> set qs \<and> c \<in> set cs \<and> P r c}"
  by (induction qs arbitrary: rs0) (auto simp: set_fold_if_append)

lemma set_rects:
  "set (rects (draw_matrix m border)) =
    {((int c + border) * 8, (int r + border) * 8, 8, 8) | r c. r < length m \<and> c < length m \<and> m ! r ! c}"
  by (auto simp: draw_matrix_def Let_def set_fold2_if_append)

lemma module_of_pixel: "(z + b) * 8 \<le> x \<and> x < (z + b) * 8 + 8 \<longleftrightarrow> x div 8 - b = (z :: int)"
  by auto

lemma black_pixel_draw_matrix:
  "black_pixel (draw_matrix m border) x y \<longleftrightarrow>
    (\<exists>r < length m. \<exists>c < length m. int c = x div 8 - border \<and> int r = y div 8 - border \<and> m ! r ! c)"
  unfolding black_pixel_def set_rects by (force simp: module_of_pixel [symmetric])

text \<open>The fallback picture: a pixel is black exactly when it lies in a dark module of the symbol,
  which starts 4 modules from the edges.
\<close>

lemma get_qr_pixmap_fallback:
  assumes "qrcode_matrix t = None" "utf8_encode t = Inr u"
  shows "\<exists>p. get_qr_pixmap qrcode_matrix t = Inr p \<and>
    total_dim p = 8 * (int (qr_size (spec_of u)) + 8) \<and>
    (\<forall>x y. black_pixel p x y \<longleftrightarrow>
      (\<exists>R < qr_size (spec_of u). \<exists>C < qr_size (spec_of u).
         int C = x div 8 - 4 \<and> int R = y div 8 - 4 \<and> qr_cell u R C))"
  using assms dims_qr_matrix [of u]
  by (simp add: get_qr_pixmap_def generate_qr_matrix_def black_pixel_draw_matrix dims_def qr_cell_def)
     (simp add: draw_matrix_def Let_def)

section \<open>Encoding errors\<close>

definition surrogate :: "nat \<Rightarrow> bool" where
  "surrogate c \<longleftrightarrow> 0xD800 \<le> c \<and> c < 0xE000"

lemma utf8_char_None: "utf8_char c = None \<longleftrightarrow> surrogate c"
  by (auto simp: utf8_char_def surrogate_def)

lemma utf8_encode_Inl: "utf8_encode t = Inl e \<Longrightarrow> e = UnicodeEncodeError"
  by (induction t) (auto split: option.splits sum.splits)

lemma utf8_encode_error: "(\<exists>u. utf8_encode t = Inr u) \<longleftrightarrow> \<not> (\<exists>c \<in> set t. surrogate c)"
proof (induction t)
  case (Cons c t)
  then show ?case
    using utf8_char_None [of c] by (auto split: option.splits sum.splits)
qed simp

text \<open>generate_qr_matrix raises exactly on texts with a surrogate code point, which Python's
  strings can hold and UTF-8 cannot, and then a UnicodeEncodeError: every other text, of any
  length, gives a matrix.\<close>

lemma generate_qr_matrix_error:
  "generate_qr_matrix t = Inl e \<longleftrightarrow> e = UnicodeEncodeError \<and> (\<exists>c \<in> set t. surrogate c)"
proof (cases "utf8_encode t")
  case (Inl e')
  with utf8_encode_error [of t] utf8_encode_Inl [OF Inl] show ?thesis
    by (auto simp: generate_qr_matrix_def)
next
  case (Inr u)
  with utf8_encode_error [of t] show ?thesis by (auto simp: generate_qr_matrix_def)
qed

end
