(* ===== verification/Page_Link.thy ===== *)
theory Page_Link
  imports Py_Str
begin

text \<open>
  What the script of the fallback client (ui_failsafe.py, lines 205 to 207) makes of the link it
  was opened with. Texts are ASCII; what the browser does to a link before the script sees its
  query, and what URLSearchParams makes of the query, is the URL standard.
\<close>

section \<open>The parameters of the page\<close>

text \<open>The browser strips control characters and spaces at the ends of a link, removes tabs and
  line ends, and gives the query, from the question mark up to a number sign.\<close>

definition code_of :: "char \<Rightarrow> nat" where
  "code_of c = of_char c"

definition clean_url :: "string \<Rightarrow> string" where
  "clean_url s = filter (\<lambda>c. code_of c \<notin> {9, 10, 13})
     (rstrip_set (\<lambda>c. code_of c \<le> 32) (dropWhile (\<lambda>c. code_of c \<le> 32) s))"

definition location_search :: "string \<Rightarrow> string" where
  "location_search url = dropWhile (\<lambda>c. c \<noteq> CHR ''?'') (takeWhile (\<lambda>c. c \<noteq> CHR ''#'') (clean_url url))"

text \<open>URLSearchParams: pairs separated by ampersands, plus signs and percent codes decoded, and
  get gives the first value of a name.\<close>

definition hex_val :: "char \<Rightarrow> nat option" where
  "hex_val c =
     (let n = code_of c
      in if 48 \<le> n \<and> n \<le> 57 then Some (n - 48)
         else if 65 \<le> n \<and> n \<le> 70 then Some (n - 55)
         else if 97 \<le> n \<and> n \<le> 102 then Some (n - 87) else None)"

fun pct_decode :: "string \<Rightarrow> string" where
  "pct_decode (a # b # c # s) =
     (if a = CHR ''%'' \<and> hex_val b \<noteq> None \<and> hex_val c \<noteq> None
      then char_of (16 * the (hex_val b) + the (hex_val c)) # pct_decode s else a # pct_decode (b # c # s))"
| "pct_decode s = s"

definition param_text :: "string \<Rightarrow> string" where
  "param_text s = pct_decode (map (\<lambda>c. if c = CHR ''+'' then CHR '' '' else c) s)"

definition search_params :: "string \<Rightarrow> (string \<times> string) list" where
  "search_params q =
     map (\<lambda>p. (param_text (takeWhile (\<lambda>c. c \<noteq> CHR ''='') p), param_text (drop 1 (dropWhile (\<lambda>c. c \<noteq> CHR ''='') p))))
       (filter (\<lambda>p. p \<noteq> []) (split_on (CHR ''&'') (if startswith q ''?'' then drop 1 q else q)))"

text \<open>The room and whether the page is the host of it.\<close>

definition open_page :: "string \<Rightarrow> string \<times> bool" where
  "open_page url =
     (let params = map_of (search_params (location_search url));
          roomId = (case params ''room'' of Some r \<Rightarrow> if r = [] then ''a'' else r | None \<Rightarrow> ''a'');
          isCreate = (params ''create'' = Some ''true'')
      in (roomId, isCreate))"

section \<open>Links of plain names\<close>

definition url_plain :: "char \<Rightarrow> bool" where
  "url_plain c \<longleftrightarrow> is_digit c \<or> (65 \<le> code_of c \<and> code_of c \<le> 90) \<or> (97 \<le> code_of c \<and> code_of c \<le> 122) \<or>
     c = CHR ''.'' \<or> c = CHR ''-'' \<or> c = CHR ''_''"

definition url_char :: "char \<Rightarrow> bool" where
  "url_char c \<longleftrightarrow> 32 < code_of c \<and> c \<noteq> CHR ''#''"

lemma url_plain_codes: "url_plain c \<Longrightarrow> 32 < code_of c"
  by (auto simp: url_plain_def is_digit_def code_of_def)

lemma url_plain_neq:
  assumes "url_plain c"
  shows "c \<noteq> CHR ''#''" "c \<noteq> CHR ''?''" "c \<noteq> CHR ''&''" "c \<noteq> CHR ''=''" "c \<noteq> CHR ''+''" "c \<noteq> CHR ''%''"
  using assms by (auto simp: url_plain_def is_digit_def code_of_def)

lemma url_plain_char: "list_all url_plain s \<Longrightarrow> list_all url_char s"
  by (auto simp: list_all_iff url_char_def dest: url_plain_codes url_plain_neq(1))

lemma clean_url_ends:
  assumes "list_all url_char s" "list_all (\<lambda>c. code_of c \<le> 32) e"
  shows "clean_url (s @ e) = s"
proof -
  have b: "32 < code_of c" if "c \<in> set s" for c using that assms(1) by (auto simp: list_all_iff url_char_def)
  have d: "dropWhile (\<lambda>c. code_of c \<le> 32) (s @ e) = (if s = [] then [] else s @ e)"
    using b assms(2) by (cases s) (force simp: list_all_iff)+
  have "rstrip_set (\<lambda>c. code_of c \<le> 32) (s @ e) = s"
  proof -
    have "dropWhile (\<lambda>c. code_of c \<le> 32) (rev e @ rev s) = rev s"
      using assms(2) b by (cases "rev s") (force simp: list_all_iff dropWhile_append2 dropWhile_append)+
    then show ?thesis by (simp add: rstrip_set_def)
  qed
  moreover have "filter (\<lambda>c. code_of c \<notin> {9, 10, 13}) s = s"
    using b by (force simp: filter_id_conv)
  ultimately show ?thesis by (simp add: clean_url_def d rstrip_set_def)
qed

lemma pct_decode_plain: "CHR ''%'' \<notin> set s \<Longrightarrow> pct_decode s = s"
  by (induction s rule: pct_decode.induct) auto

lemma param_text_plain:
  assumes "list_all url_plain s"
  shows "param_text s = s"
proof -
  have n: "CHR ''+'' \<notin> set s" "CHR ''%'' \<notin> set s"
    using assms by (auto simp: list_all_iff dest: url_plain_neq(5,6))
  have "map (\<lambda>c. if c = CHR ''+'' then CHR '' '' else c) s = s"
    using n(1) by (induction s) auto
  then show ?thesis using pct_decode_plain [OF n(2)] by (simp only: param_text_def)
qed

lemma url_plain_names: "list_all url_plain ''room''" "list_all url_plain ''create''" "list_all url_plain ''true''"
  by code_simp+

lemma pair_of:
  assumes "list_all url_plain k" "list_all url_plain v"
  shows "(param_text (takeWhile (\<lambda>c. c \<noteq> CHR ''='') (k @ CHR ''='' # v)),
    param_text (drop 1 (dropWhile (\<lambda>c. c \<noteq> CHR ''='') (k @ CHR ''='' # v)))) = (k, v)"
proof -
  have "\<forall>c \<in> set k. c \<noteq> CHR ''=''" using assms(1) by (auto simp: list_all_iff dest: url_plain_neq(4))
  then show ?thesis
    using param_text_plain [OF assms(1)] param_text_plain [OF assms(2)]
    by (simp add: takeWhile_append2 dropWhile_append2)
qed

lemma query_of:
  assumes "list_all url_plain ip" "list_all url_char q" "list_all (\<lambda>c. code_of c \<le> 32) e"
  shows "location_search (''http://'' @ ip @ '':5050/?'' @ q @ e) = CHR ''?'' # q"
proof -
  let ?u = "''http://'' @ ip @ '':5050/?'' @ q"
  have c: "list_all url_char (''http://'')" "list_all url_char ('':5050/?'')" by code_simp+
  have u: "list_all url_char ?u" using c url_plain_char [OF assms(1)] assms(2) by simp
  have "clean_url (''http://'' @ ip @ '':5050/?'' @ q @ e) = ?u"
    using clean_url_ends [OF u assms(3)] by simp
  moreover have "takeWhile (\<lambda>c. c \<noteq> CHR ''#'') ?u = ?u"
    using u by (intro takeWhile_eq_all_conv [THEN iffD2]) (auto simp: list_all_iff url_char_def)
  moreover have "dropWhile (\<lambda>c. c \<noteq> CHR ''?'') ?u = CHR ''?'' # q"
  proof -
    have "\<forall>c \<in> set (''http://'' @ ip @ '':5050/''). c \<noteq> CHR ''?''"
      using assms(1) by (auto simp: list_all_iff dest: url_plain_neq(2))
    then have "dropWhile (\<lambda>c. c \<noteq> CHR ''?'') ((''http://'' @ ip @ '':5050/'') @ CHR ''?'' # q) = CHR ''?'' # q"
      by (subst dropWhile_append2) auto
    then show ?thesis by simp
  qed
  ultimately show ?thesis unfolding location_search_def by (simp only:)
qed

lemma search_params_room:
  assumes "list_all url_plain room"
  shows "search_params (CHR ''?'' # ''room='' @ room) = [(''room'', room)]"
    and "search_params (CHR ''?'' # ''room='' @ room @ ''&create=true'') = [(''room'', room), (''create'', ''true'')]"
proof -
  have n: "CHR ''&'' \<notin> set (''room='' @ room)" using assms by (auto simp: list_all_iff dest: url_plain_neq(3))
  have s: "startswith (CHR ''?'' # q) ''?''" for q by (simp add: startswith_def)
  note p = pair_of [OF url_plain_names(1) assms] pair_of [OF url_plain_names(2,3)]
  have a: "split_on (CHR ''&'') (''room='' @ room) = [''room='' @ room]" by (rule split_on_plain [OF n])
  then show "search_params (CHR ''?'' # ''room='' @ room) = [(''room'', room)]"
    using p(1) s by (simp add: search_params_def)
  have "split_on (CHR ''&'') (''create=true'') = [''create=true'']" by (rule split_on_plain) simp
  with split_on_append_sep [OF n, of "''create=true''"]
  have "split_on (CHR ''&'') (''room='' @ room @ ''&create=true'') = [''room='' @ room, ''create=true'']"
    by simp
  then show "search_params (CHR ''?'' # ''room='' @ room @ ''&create=true'') = [(''room'', room), (''create'', ''true'')]"
    using p s by (simp add: search_params_def)
qed

end
