(* ===== verification/Join_Link.thy ===== *)
theory Join_Link
  imports Control_Server Qr_Pixmap Page_Link
begin

text \<open>
  The links of a room, as the start of the host makes them: the one in link.txt, the one the
  toolbar shows as a QR code (QROverlayDialog in gui_overlay.py), and the one the hidden browser
  is started with; and what the fallback client takes each of them for.
\<close>

section \<open>The card with the QR code\<close>

record qr_card =
  card_title :: string
  card_picture :: pixmap
  card_url :: string
  card_hint :: string

definition toolbar_url :: "string \<Rightarrow> string \<Rightarrow> string" where
  "toolbar_url ip room = ''http://'' @ ip @ '':5050/?room='' @ room @ ''&create=true''"

text \<open>An exception of get_qr_pixmap leaves the constructor.\<close>

definition QROverlayDialog :: "(nat list \<Rightarrow> bool list list option) \<Rightarrow> string \<Rightarrow> py_error + qr_card" where
  "QROverlayDialog qrcode_matrix join_url =
     (case get_qr_pixmap qrcode_matrix (map of_char join_url) of
        Inl e \<Rightarrow> Inl e
      | Inr p \<Rightarrow> Inr \<lparr>card_title = ''Scan with Phone to Join'', card_picture = p, card_url = join_url,
          card_hint = ''(Click anywhere on this card to close)''\<rparr>)"

text \<open>The constructor of the toolbar, with its card.\<close>

definition init_overlay ::
  "(nat list \<Rightarrow> bool list list option) \<Rightarrow> string \<Rightarrow> string \<Rightarrow> py_error + toolbar \<times> qr_card" where
  "init_overlay qrcode_matrix ip room =
     (case QROverlayDialog qrcode_matrix (toolbar_url ip room) of
        Inl e \<Rightarrow> Inl e
      | Inr c \<Rightarrow> Inr (init_toolbar, c))"

lemma utf8_chars: "\<exists>u. utf8_encode (map of_char s) = Inr u"
proof (induction s)
  case (Cons c s)
  have "(of_char c :: nat) < 256" by simp
  then have "(of_char c :: nat) < 0xD800" by linarith
  then have "\<exists>b. utf8_char (of_char c) = Some b" by (auto simp: utf8_char_def)
  with Cons show ?case by auto
qed simp

lemma init_overlay_ok:
  "\<exists>c. init_overlay qrcode_matrix ip room = Inr (init_toolbar, c) \<and> card_url c = toolbar_url ip room"
proof -
  obtain u where "utf8_encode (map of_char (toolbar_url ip room)) = Inr u" using utf8_chars by blast
  then have "\<exists>p. get_qr_pixmap qrcode_matrix (map of_char (toolbar_url ip room)) = Inr p"
    by (simp add: get_qr_pixmap_def generate_qr_matrix_def split: option.split)
  then show ?thesis by (auto simp: init_overlay_def QROverlayDialog_def)
qed

section \<open>The links of a start\<close>

lemma prepare_links:
  assumes "prepare m f = (f1, None)"
  shows "room_name f1 = room_name f" "lan_ip f1 = detect_lan_ip (m_platform m) (m_ip_output m) (m_sock_ip m)"
    "link_file f1 = Some (write_link_file (''http://'' @ lan_ip f1 @ '':5050/?room='' @ room_name f))"
  using assms by (auto simp: prepare_def Let_def split: prod.splits option.splits sum.splits)

lemma bring_up_browser:
  assumes "bring_up m b f = (f', None)" "browser_proc f' = Some (cmd, e)"
  shows "''--app=http://127.0.0.1:5050/?room='' @ room_name f @ ''&create=true'' \<in> set cmd"
  using assms browser_cmd_args(1)
  by (auto simp: bring_up_def launch_hidden_browser_def Let_def browser_cmd_def split: sum.splits option.splits if_splits)

lemma url_plain_not_space: "url_plain c \<Longrightarrow> \<not> is_space c"
  by (auto simp: url_plain_def is_digit_def is_space_def code_of_def Let_def)

lemma strip_link:
  assumes "list_all url_plain ip" "list_all url_plain room"
  shows "strip (''http://'' @ ip @ '':5050/?room='' @ room) = ''http://'' @ ip @ '':5050/?room='' @ room"
proof (rule strip_no_space)
  have "list_all (\<lambda>c. \<not> is_space c) ''http://''" "list_all (\<lambda>c. \<not> is_space c) '':5050/?room=''" by code_simp+
  with assms show "list_all (\<lambda>c. \<not> is_space c) (''http://'' @ ip @ '':5050/?room='' @ room)"
    by (auto simp: list_all_iff dest: url_plain_not_space)
qed

lemma open_page_link:
  assumes "list_all url_plain ip" "list_all url_plain room" "room \<noteq> []"
  shows "open_page (toolbar_url ip room) = (room, True)"
    and "open_page (write_link_file (''http://'' @ ip @ '':5050/?room='' @ room)) = (room, False)"
proof -
  have c: "list_all url_char ''room=''" "list_all url_char ''&create=true''" by code_simp+
  then have q: "list_all url_char (''room='' @ room)" "list_all url_char (''room='' @ room @ ''&create=true'')"
    using url_plain_char [OF assms(2)] by simp_all
  have n: "list_all (\<lambda>c. code_of c \<le> 32) [CHR 0x0A]" "list_all (\<lambda>c. code_of c \<le> 32) []" by code_simp+
  have "location_search (toolbar_url ip room) = CHR ''?'' # ''room='' @ room @ ''&create=true''"
    using query_of [OF assms(1) q(2) n(2)] by (simp add: toolbar_url_def)
  then show "open_page (toolbar_url ip room) = (room, True)"
    using search_params_room(2) [OF assms(2)] assms(3) unfolding open_page_def by (simp only:) simp
  have "location_search (write_link_file (''http://'' @ ip @ '':5050/?room='' @ room)) = CHR ''?'' # ''room='' @ room"
    unfolding write_link_file_def strip_link [OF assms(1,2)] using query_of [OF assms(1) q(1) n(1)] by simp
  then show "open_page (write_link_file (''http://'' @ ip @ '':5050/?room='' @ room)) = (room, False)"
    using search_params_room(1) [OF assms(2)] assms(3) unfolding open_page_def by (simp only:) simp
qed

text \<open>C13: After a start the card of the toolbar, which viewers are asked to scan, shows the link with
  create=true, and the fallback client takes this link for that of the host: on the phone it
  broadcasts instead of showing the room. The link in link.txt is of the same room and opens the
  viewer; the one of the hidden browser opens the host, as it must.\<close>

theorem scanned_link_opens_host_page:
  assumes "start m (init_facade room d) = Some (f, None)" "room \<noteq> []" "list_all url_plain room" "list_all url_plain (lan_ip f)"
  shows "(\<exists>c. init_overlay qrcode_matrix (lan_ip f) room = Inr (init_toolbar, c) \<and> open_page (card_url c) = (room, True)) \<and>
    (\<exists>l. link_file f = Some l \<and> open_page l = (room, False)) \<and>
    (case browser_proc f of
       Some (cmd, e) \<Rightarrow> \<exists>url. ''--app='' @ url \<in> set cmd \<and> open_page url = (room, True)
     | None \<Rightarrow> True)"
proof -
  obtain f1 b where f1: "prepare m (init_facade room d) = (f1, None)" "bring_up m b f1 = (f, None)"
    using assms(1) by (rule start_ok)
  note p = prepare_links [OF f1(1)]
  have f: "link_file f = link_file f1" "lan_ip f = lan_ip f1" using f1(2) by (auto elim: bring_up_ok)
  have r: "room_name f1 = room" using p(1) by (simp add: init_facade_def)
  have "\<exists>c. init_overlay qrcode_matrix (lan_ip f) room = Inr (init_toolbar, c) \<and> open_page (card_url c) = (room, True)"
    using init_overlay_ok [of qrcode_matrix "lan_ip f" room] open_page_link(1) [OF assms(4,3,2)] by metis
  moreover have "\<exists>l. link_file f = Some l \<and> open_page l = (room, False)"
    using p(3) open_page_link(2) [OF assms(4,3,2)] f by (simp add: init_facade_def)
  moreover have "\<exists>url. ''--app='' @ url \<in> set cmd \<and> open_page url = (room, True)" if "browser_proc f = Some (cmd, e)" for cmd e
  proof (intro exI conjI)
    have "list_all url_plain ''127.0.0.1''" by code_simp
    from open_page_link(1) [OF this assms(3,2)] show "open_page (toolbar_url ''127.0.0.1'' room) = (room, True)" .
    show "''--app='' @ toolbar_url ''127.0.0.1'' room \<in> set cmd"
      using bring_up_browser [OF f1(2) that] r by (simp add: toolbar_url_def)
  qed
  ultimately show ?thesis by (auto split: option.split)
qed

theorem scanned_link_opens_host_page_witness:
  "\<exists>f c. start sample_machine (init_facade ''a'' server_disk) = Some (f, None) \<and>
    init_overlay (\<lambda>_. None) (lan_ip f) ''a'' = Inr (init_toolbar, c) \<and> open_page (card_url c) = (''a'', True)"
proof -
  obtain f where f: "start sample_machine (init_facade ''a'' server_disk) = Some (f, None)" using sample_start by blast
  obtain f1 b where f1: "prepare sample_machine (init_facade ''a'' server_disk) = (f1, None)" "bring_up sample_machine b f1 = (f, None)"
    using f by (rule start_ok)
  have "lan_ip f = lan_ip f1" using f1(2) by (auto elim: bring_up_ok)
  then have "lan_ip f = detect_lan_ip ''linux'' None (Some ''10.0.0.2'')"
    using prepare_links(2) [OF f1(1)] by (simp add: sample_machine_def)
  moreover have "list_all url_plain (detect_lan_ip ''linux'' None (Some ''10.0.0.2''))" "list_all url_plain ''a''" by code_simp+
  ultimately show ?thesis
    using scanned_link_opens_host_page [OF f, of "\<lambda>_. None"] f by auto
qed

end
