(* ===== verification/Failsafe_Viewer.thy ===== *)
theory Failsafe_Viewer
  imports Py_Str "HOL-Library.Multiset"
begin

text \<open>
  Two more parts of the script in ui_failsafe.py. First the ICE candidates of a peer connection,
  in both modes: they may arrive before the description of the other side is set, are then kept
  aside, and are handed on one by one when it is. Second the sound of the viewer mode, which has
  three outputs: the video element, an audio element, and Web Audio.
\<close>

section \<open>Candidates of one session\<close>

text \<open>
  The entries of peerConnections and pendingIceCandidates for a session: whether there is a
  connection, whether its remote description is set, the array of kept candidates, the rest of
  a loop over that array that is suspended at its await, and the candidates the connection was
  given, in order.
\<close>

record 'c ice =
  has_pc :: bool
  has_remote :: bool
  pending :: "'c list option"
  flushing :: "'c list option"
  given :: "'c list"

definition no_session :: "'c ice" where
  "no_session = \<lparr>has_pc = False, has_remote = False, pending = None, flushing = None, given = []\<rparr>"

text \<open>hostsession and clientsession make the connection and an empty array.\<close>

definition new_session :: "'c ice \<Rightarrow> 'c ice" where
  "new_session i = \<lparr>has_pc = True, has_remote = False, pending = Some [], flushing = None, given = []\<rparr>"

text \<open>hostoffer and clientanswer: setRemoteDescription has succeeded, and the loop begins.\<close>

definition description_set :: "'c ice \<Rightarrow> 'c ice" where
  "description_set i =
     (if has_pc i then (i\<lparr>has_remote := True\<rparr>)\<lparr>flushing := pending i\<rparr> else i)"

text \<open>One pass of the loop, or its end, which puts a new empty array.\<close>

definition flush_step :: "'c ice \<Rightarrow> 'c ice" where
  "flush_step i =
     (case flushing i of
        None \<Rightarrow> i
      | Some [] \<Rightarrow> i\<lparr>flushing := None, pending := Some []\<rparr>
      | Some (c # cs) \<Rightarrow> i\<lparr>flushing := Some cs, given := given i @ [c]\<rparr>)"

text \<open>hostice and clientice; a message without a candidate is ignored.\<close>

definition on_candidate :: "'c option \<Rightarrow> 'c ice \<Rightarrow> 'c ice" where
  "on_candidate cand i =
     (case cand of
        None \<Rightarrow> i
      | Some c \<Rightarrow>
          if has_pc i \<and> has_remote i then i\<lparr>given := given i @ [c]\<rparr>
          else i\<lparr>pending := Some ((case pending i of Some cs \<Rightarrow> cs | None \<Rightarrow> []) @ [c])\<rparr>)"

text \<open>The life of a session with one description, and the candidates received so far.\<close>

inductive ice_reach :: "'c ice \<Rightarrow> 'c list \<Rightarrow> bool" where
  opened: "ice_reach (new_session i) []"
| candidate: "ice_reach i r \<Longrightarrow> ice_reach (on_candidate (Some c) i) (r @ [c])"
| no_candidate: "ice_reach i r \<Longrightarrow> ice_reach (on_candidate None i) r"
| described: "ice_reach i r \<Longrightarrow> \<not> has_remote i \<Longrightarrow> ice_reach (description_set i) r"
| flushed: "ice_reach i r \<Longrightarrow> flushing i \<noteq> None \<Longrightarrow> ice_reach (flush_step i) r"

inductive_cases ice_reachE: "ice_reach i r"

text \<open>What is kept aside: the rest of the loop if it runs, else the array.\<close>

definition kept :: "'c ice \<Rightarrow> 'c list" where
  "kept i = (case flushing i of Some cs \<Rightarrow> cs | None \<Rightarrow> (case pending i of Some cs \<Rightarrow> cs | None \<Rightarrow> []))"

definition ice_inv :: "'c ice \<Rightarrow> 'c list \<Rightarrow> bool" where
  "ice_inv i r \<longleftrightarrow> has_pc i \<and> pending i \<noteq> None \<and> (flushing i \<noteq> None \<longrightarrow> has_remote i) \<and>
     (has_remote i \<longrightarrow> flushing i \<noteq> None \<or> pending i = Some []) \<and>
     mset (given i) + mset (kept i) = mset r \<and> (has_remote i \<or> given i = [] \<and> kept i = r)"

lemma ice_inv_new: "ice_inv (new_session i) []"
  by (simp add: ice_inv_def new_session_def kept_def)

lemma ice_inv_candidate: "ice_inv i r \<Longrightarrow> ice_inv (on_candidate (Some c) i) (r @ [c])"
  by (cases "has_remote i"; cases "flushing i"; cases "pending i") (auto simp: ice_inv_def on_candidate_def kept_def)

lemma ice_inv_described: "ice_inv i r \<Longrightarrow> \<not> has_remote i \<Longrightarrow> ice_inv (description_set i) r"
  by (auto simp: ice_inv_def description_set_def kept_def)

lemma ice_inv_flushed:
  assumes "ice_inv i r" "flushing i \<noteq> None"
  shows "ice_inv (flush_step i) r"
proof -
  obtain cs where "flushing i = Some cs" using assms(2) by blast
  with assms(1) show ?thesis by (cases cs) (auto simp: ice_inv_def flush_step_def kept_def)
qed

lemma on_candidate_None [simp]: "on_candidate None i = i"
  by (simp add: on_candidate_def)

lemma ice_reach_inv: "ice_reach i r \<Longrightarrow> ice_inv i r"
  by (induction rule: ice_reach.induct)
     (auto intro: ice_inv_new ice_inv_candidate ice_inv_described ice_inv_flushed)

text \<open>No candidate is lost or given twice: in every life of a session with one description
  the candidates given to the connection together with those kept aside are those received;
  before the description is set all are kept in order, and when it is set and the loop over
  them has ended, all were given.\<close>

lemma no_candidate_lost:
  assumes "ice_reach i r"
  shows "mset (given i) + mset (kept i) = mset r \<and>
    (if \<not> has_remote i then given i = [] \<and> kept i = r
     else if flushing i = None then mset (given i) = mset r \<and> kept i = [] else True)"
  using ice_reach_inv [OF assms] by (auto simp: ice_inv_def kept_def)

text \<open>The loop ends after one pass more than it has candidates left.\<close>

lemma flush_all: "flushing i = Some cs \<Longrightarrow>
    (flush_step ^^ Suc (length cs)) i = i\<lparr>flushing := None, pending := Some [], given := given i @ cs\<rparr>"
proof (induction cs arbitrary: i)
  case (Cons c cs)
  have "(flush_step ^^ Suc (length (c # cs))) i = (flush_step ^^ Suc (length cs)) (flush_step i)"
    by (simp only: funpow_Suc_right o_apply length_Cons)
  also have "\<dots> = (flush_step i)\<lparr>flushing := None, pending := Some [], given := given (flush_step i) @ cs\<rparr>"
    by (rule Cons.IH) (simp add: flush_step_def Cons.prems)
  also have "\<dots> = i\<lparr>flushing := None, pending := Some [], given := given i @ c # cs\<rparr>"
    by (simp add: flush_step_def Cons.prems)
  finally show ?case .
qed (simp add: flush_step_def)

text \<open>A candidate that came before the session message would be lost, since the session starts a new
  array; in the order in which the server relays none does (theory Signalling).\<close>

lemma early_candidate_lost: "new_session (on_candidate (Some c) i) = new_session i"
  by (simp add: new_session_def)

section \<open>Sound of the viewer\<close>

text \<open>
  The stream that is played and the number of audio tracks of each stream, the flags of the three
  outputs, and what the page shows, the captions of the button without their leading symbol. A
  context starts running or suspended, as the browser allows. The keys of peerConnections are
  kept in order; joins counts the join messages sent.
\<close>

datatype play = TrackPlay | UnmutePlay

record viewer =
  remoteStream :: nat
  audio_tracks :: "nat \<Rightarrow> nat"
  dedicatedAudio :: "(nat \<times> bool) option"
  audioCtx :: "bool option"
  audioSourceNode :: "nat option"
  audioContextUnlocked :: bool
  video_src :: nat
  video_muted :: bool
  banner_shown :: bool
  overlay_shown :: bool
  toggle_text :: string
  status_text :: string
  plays :: "play list"
  peers :: "string list"
  msg_title :: string
  socket_open :: bool
  reconnecting :: bool
  joins :: nat

definition init_viewer :: viewer where
  "init_viewer =
     \<lparr>remoteStream = 0, audio_tracks = (\<lambda>_. 0), dedicatedAudio = None, audioCtx = None, audioSourceNode = None,
      audioContextUnlocked = False, video_src = 0, video_muted = False, banner_shown = False, overlay_shown = True,
      toggle_text = ''Sound: Playing'', status_text = ''Connecting...'', plays = [], peers = [],
      msg_title = ''ScreenShare Stream'', socket_open = False, reconnecting = False, joins = 0\<rparr>"

definition setupRemoteAudioPipelines :: "bool \<Rightarrow> viewer \<Rightarrow> viewer" where
  "setupRemoteAudioPipelines ctx_runs v =
     (let v = v\<lparr>dedicatedAudio := Some (remoteStream v, case dedicatedAudio v of Some (_, m) \<Rightarrow> m | None \<Rightarrow> False)\<rparr>;
          v = (if audioCtx v = None then v\<lparr>audioCtx := Some ctx_runs\<rparr> else v)
      in if audioSourceNode v = None \<and> 0 < audio_tracks v (remoteStream v)
         then v\<lparr>audioSourceNode := Some (remoteStream v)\<rparr> else v)"

definition unlockAudioEngine :: "bool \<Rightarrow> viewer \<Rightarrow> viewer" where
  "unlockAudioEngine ctx_runs v =
     (let v = setupRemoteAudioPipelines ctx_runs v
      in v\<lparr>audioCtx := Some True, audioContextUnlocked := True\<rparr>)"

definition unmutePlayback :: "bool \<Rightarrow> viewer \<Rightarrow> viewer" where
  "unmutePlayback ctx_runs v =
     (let v = unlockAudioEngine ctx_runs v;
          v = v\<lparr>banner_shown := False, video_muted := False\<rparr>
      in v\<lparr>dedicatedAudio := map_option (\<lambda>(s, m). (s, False)) (dedicatedAudio v), plays := plays v @ [UnmutePlay]\<rparr>)"

definition toggleAudio :: "bool \<Rightarrow> viewer \<Rightarrow> viewer" where
  "toggleAudio ctx_runs v =
     (if video_muted v then unmutePlayback ctx_runs v
      else v\<lparr>video_muted := True, dedicatedAudio := map_option (\<lambda>(s, m). (s, True)) (dedicatedAudio v),
             toggle_text := ''Sound: Muted'', status_text := ''Live Broadcast (Sound Muted)''\<rparr>)"

text \<open>A track arrives with its stream, or alone and joins the stream that is played.\<close>

definition on_track :: "bool \<Rightarrow> nat option \<Rightarrow> bool \<Rightarrow> viewer \<Rightarrow> viewer" where
  "on_track ctx_runs stream is_audio v =
     (let s = (case stream of Some s \<Rightarrow> s | None \<Rightarrow> remoteStream v);
          v = v\<lparr>remoteStream := s\<rparr>;
          v = (if is_audio then v\<lparr>audio_tracks := (audio_tracks v)(s := audio_tracks v s + 1)\<rparr> else v);
          v = setupRemoteAudioPipelines ctx_runs (v\<lparr>video_src := s\<rparr>)
      in v\<lparr>video_muted := False, plays := plays v @ [TrackPlay]\<rparr>)"

text \<open>The promise of a call of play is kept or broken.\<close>

definition play_done :: "play \<Rightarrow> bool \<Rightarrow> viewer \<Rightarrow> viewer" where
  "play_done p ok v =
     (let v = v\<lparr>plays := remove1 p (plays v)\<rparr>
      in if ok then
           (let v = v\<lparr>toggle_text := ''Sound: Playing'', status_text := ''Live Broadcast (Sound Active)''\<rparr>
            in if p = TrackPlay then v\<lparr>overlay_shown := False, banner_shown := False\<rparr> else v)
         else if p = TrackPlay then
           v\<lparr>video_muted := True, overlay_shown := False, banner_shown := True,
             toggle_text := ''Tap to Hear Sound'', status_text := ''Live Broadcast (Tap for Sound)''\<rparr>
         else v)"

text \<open>The connection to the server: each opening joins the room anew, each end schedules another.\<close>

definition viewer_onopen :: "viewer \<Rightarrow> viewer" where
  "viewer_onopen v =
     v\<lparr>socket_open := True, reconnecting := False, status_text := ''Connected'', joins := joins v + 1\<rparr>"

definition viewer_onclose :: "viewer \<Rightarrow> viewer" where
  "viewer_onclose v = v\<lparr>socket_open := False, reconnecting := True, status_text := ''Reconnecting...''\<rparr>"

text \<open>The messages clientsession and endshare or stopshare.\<close>

definition clientsession :: "string \<Rightarrow> viewer \<Rightarrow> viewer" where
  "clientsession sid v = v\<lparr>peers := (if sid \<in> set (peers v) then peers v else peers v @ [sid])\<rparr>"

definition share_ended :: "string \<Rightarrow> viewer \<Rightarrow> viewer" where
  "share_ended sid v =
     (let v = v\<lparr>peers := remove1 sid (peers v)\<rparr>
      in if peers v = [] then
           v\<lparr>overlay_shown := True, msg_title := ''Stream Ended'', status_text := ''Stream Ended'', banner_shown := False\<rparr>
         else v)"

datatype viewer_event = TrackArrives bool "nat option" bool | PlayDone play bool
  | TapVideo bool | TapToggle bool | TapElsewhere bool
  | SocketOpens | SocketCloses | Session string | ShareEnds string

definition viewer_step :: "viewer_event \<Rightarrow> viewer \<Rightarrow> viewer" where
  "viewer_step e v =
     (case e of
        TrackArrives r s a \<Rightarrow> on_track r s a v
      | PlayDone p ok \<Rightarrow> if p \<in> set (plays v) then play_done p ok v else v
      | TapVideo r \<Rightarrow> unmutePlayback r v
      | TapToggle r \<Rightarrow> toggleAudio r v
      | TapElsewhere r \<Rightarrow> unlockAudioEngine r v
      | SocketOpens \<Rightarrow> viewer_onopen v
      | SocketCloses \<Rightarrow> viewer_onclose v
      | Session sid \<Rightarrow> clientsession sid v
      | ShareEnds sid \<Rightarrow> share_ended sid v)"

lemmas viewer_defs = viewer_step_def on_track_def setupRemoteAudioPipelines_def unmutePlayback_def unlockAudioEngine_def
  play_done_def toggleAudio_def viewer_onopen_def viewer_onclose_def clientsession_def share_ended_def

text \<open>The sound heard through Web Audio: the context runs and a stream with sound is connected.\<close>

definition web_audio_heard :: "viewer \<Rightarrow> bool" where
  "web_audio_heard v \<longleftrightarrow> audioCtx v = Some True \<and>
     audioSourceNode v \<noteq> None \<and> 0 < audio_tracks v (the (audioSourceNode v))"

lemma web_audio_setup: "web_audio_heard v \<Longrightarrow> web_audio_heard (setupRemoteAudioPipelines r v)"
  by (auto simp: web_audio_heard_def setupRemoteAudioPipelines_def Let_def split: option.splits)

lemma web_audio_step: "web_audio_heard v \<Longrightarrow> web_audio_heard (viewer_step e v)"
proof -
  assume w: "web_audio_heard v"
  have u: "web_audio_heard (unlockAudioEngine r v)" for r
    using web_audio_setup [OF w, of r]
    by (auto simp: unlockAudioEngine_def web_audio_heard_def Let_def split: option.splits)
  then have m: "web_audio_heard (unmutePlayback r v)" for r
    by (auto simp: unmutePlayback_def web_audio_heard_def Let_def split: option.splits)
  have t: "web_audio_heard (on_track r s a v)" for r s a
  proof -
    let ?s = "case s of Some s \<Rightarrow> s | None \<Rightarrow> remoteStream v"
    have "web_audio_heard ((if a then (v\<lparr>remoteStream := ?s\<rparr>)\<lparr>audio_tracks := (audio_tracks v)(?s := audio_tracks v ?s + 1)\<rparr>
        else v\<lparr>remoteStream := ?s\<rparr>)\<lparr>video_src := ?s\<rparr>)"
      using w by (auto simp: web_audio_heard_def split: option.splits)
    from web_audio_setup [OF this, of r] show ?thesis
      by (cases a) (auto simp: on_track_def web_audio_heard_def Let_def split: option.splits)
  qed
  show ?thesis
    using w u m t by (cases e) (auto simp: viewer_step_def toggleAudio_def play_done_def viewer_onopen_def viewer_onclose_def
        clientsession_def share_ended_def web_audio_heard_def Let_def split: option.splits)
qed

text \<open>Once sound is heard through Web Audio nothing the viewer does ends it: after any further
  events it is still heard, also after the sound button, which then says that the sound is
  muted and has muted the other two outputs.\<close>

lemma mute_keeps_web_audio:
  assumes "web_audio_heard v"
  shows "web_audio_heard (fold viewer_step es v) \<and>
    (if video_muted v then True
     else web_audio_heard (viewer_step (TapToggle r) v) \<and> video_muted (viewer_step (TapToggle r) v) \<and>
       status_text (viewer_step (TapToggle r) v) = ''Live Broadcast (Sound Muted)'' \<and>
       (case dedicatedAudio (viewer_step (TapToggle r) v) of Some (_, m) \<Rightarrow> m | None \<Rightarrow> True))"
proof -
  have "web_audio_heard (fold viewer_step es v)"
    using assms by (induction es arbitrary: v) (simp_all add: web_audio_step)
  moreover have "web_audio_heard (viewer_step (TapToggle r) v)" by (rule web_audio_step [OF assms])
  ultimately show ?thesis by (auto simp: viewer_step_def toggleAudio_def split: option.split)
qed

text \<open>A viewer who joins, taps the video to get sound, and mutes it with the button.\<close>

section \<open>Sessions of the viewer\<close>

text \<open>
  The sessions the page keeps: the ones opened and not ended since, each once, whatever else
  happens, reconnections included.
\<close>

fun open_sessions :: "viewer_event list \<Rightarrow> string set \<Rightarrow> string set" where
  "open_sessions [] S = S"
| "open_sessions (Session sid # es) S = open_sessions es (insert sid S)"
| "open_sessions (ShareEnds sid # es) S = open_sessions es (S - {sid})"
| "open_sessions (e # es) S = open_sessions es S"

lemma share_ended_peers [simp]: "peers (share_ended sid v) = remove1 sid (peers v)"
  by (simp add: share_ended_def Let_def)

lemma peers_step:
  "distinct (peers v) \<Longrightarrow> distinct (peers (viewer_step e v)) \<and> set (peers (viewer_step e v)) = open_sessions [e] (set (peers v))"
  by (cases e) (auto simp: viewer_step_def on_track_def setupRemoteAudioPipelines_def unmutePlayback_def unlockAudioEngine_def
      play_done_def toggleAudio_def viewer_onopen_def viewer_onclose_def clientsession_def Let_def)

lemma open_sessions_Cons: "open_sessions (e # es) S = open_sessions es (open_sessions [e] S)"
  by (cases e) simp_all

lemma peers_run:
  "distinct (peers v) \<Longrightarrow> distinct (peers (fold viewer_step es v)) \<and> set (peers (fold viewer_step es v)) = open_sessions es (set (peers v))"
proof (induction es arbitrary: v)
  case (Cons e es)
  from peers_step [OF Cons.prems, of e] Cons.IH [of "viewer_step e v"] show ?case
    by (simp only: fold_Cons comp_apply open_sessions_Cons [of e es])
qed simp

text \<open>The end of a broadcast is shown when its message comes and no other session is open.\<close>

lemma stream_ended_shown:
  assumes "open_sessions es {} \<subseteq> {sid}"
  shows "status_text (fold viewer_step (es @ [ShareEnds sid]) init_viewer) = ''Stream Ended'' \<and>
    overlay_shown (fold viewer_step (es @ [ShareEnds sid]) init_viewer)"
proof -
  have p: "distinct (peers (fold viewer_step es init_viewer)) \<and>
      set (peers (fold viewer_step es init_viewer)) = open_sessions es {}"
    using peers_run [of init_viewer es] by (simp add: init_viewer_def)
  then have "set (remove1 sid (peers (fold viewer_step es init_viewer))) = {}"
    using assms by auto
  then show ?thesis by (simp add: viewer_step_def share_ended_def Let_def)
qed

text \<open>
  A session whose end was never told, as after a lost connection, is kept for good: once the
  viewer has come back, the end of its new session is not shown.
\<close>

lemma lost_session_hides_end:
  assumes "old \<in> set (peers v)" "distinct (peers v)" "ShareEnds old \<notin> set es"
  shows "old \<in> set (peers (fold viewer_step es v))"
    and "sid \<noteq> old \<Longrightarrow> status_text (viewer_step (ShareEnds sid) (fold viewer_step es v)) = status_text (fold viewer_step es v)"
proof -
  have "old \<in> S \<Longrightarrow> old \<in> open_sessions es S" for S
    using assms(3) by (induction es S rule: open_sessions.induct) auto
  then show m: "old \<in> set (peers (fold viewer_step es v))"
    using peers_run [OF assms(2)] assms(1) by simp
  show "sid \<noteq> old \<Longrightarrow> status_text (viewer_step (ShareEnds sid) (fold viewer_step es v)) = status_text (fold viewer_step es v)"
    using m in_set_remove1 [of old sid "peers (fold viewer_step es v)"]
    by (cases "remove1 sid (peers (fold viewer_step es v)) = []") (auto simp: viewer_step_def share_ended_def Let_def)
qed

text \<open>Every connection joins the room once.\<close>

lemma joins_run: "joins (fold viewer_step es v) = joins v + length (filter (\<lambda>e. e = SocketOpens) es)"
proof (induction es arbitrary: v)
  case (Cons e es)
  have "joins (viewer_step e v) = joins v + (if e = SocketOpens then 1 else 0)"
    by (cases e) (simp_all add: viewer_defs Let_def)
  with Cons.IH [of "viewer_step e v"] show ?case by simp
qed simp

text \<open>
  Web Audio is connected once, to the first stream with sound: a later stream, as after a new
  start of the broadcast, plays in the elements but is never connected.
\<close>

lemma source_node_step: "audioSourceNode v = Some s \<Longrightarrow> audioSourceNode (viewer_step e v) = Some s"
  by (cases e) (auto simp: viewer_defs Let_def)

lemma source_node_first: "audioSourceNode v = Some s \<Longrightarrow> audioSourceNode (fold viewer_step es v) = Some s"
  by (induction es arbitrary: v) (simp_all add: source_node_step)

lemma second_stream_not_connected:
  "let v = fold viewer_step [TrackArrives True (Some 1) True, TrackArrives True (Some 2) True] init_viewer
   in remoteStream v = 2 \<and> video_src v = 2 \<and> audioSourceNode v = Some 1"
  by (simp add: viewer_defs init_viewer_def Let_def)

section \<open>Full screen\<close>

datatype screen_call = VideoFullscreen | VideoWebkitFullscreen | DocumentFullscreen | LockLandscape | ExitFullscreen

text \<open>The button of the full screen; supports says which of the functions the browser has.\<close>

definition fullscreen_click :: "(screen_call \<Rightarrow> bool) \<Rightarrow> bool \<Rightarrow> screen_call list" where
  "fullscreen_click supports is_fullscreen =
     (if \<not> is_fullscreen then
        (if supports VideoFullscreen then [VideoFullscreen]
         else if supports VideoWebkitFullscreen then [VideoWebkitFullscreen]
         else if supports DocumentFullscreen then [DocumentFullscreen] else []) @
        (if supports LockLandscape then [LockLandscape] else [])
      else if supports ExitFullscreen then [ExitFullscreen] else [])"

lemma fullscreen_click_supported:
  "set (fullscreen_click supports b) \<subseteq> Collect supports" "distinct (fullscreen_click supports b)"
  "ExitFullscreen \<in> set (fullscreen_click supports b) \<Longrightarrow> b"
  by (auto simp: fullscreen_click_def split: if_splits)

end
