(* ===== verification/Signalling.thy ===== *)
theory Signalling
  imports Failsafe_Viewer
begin

text \<open>
  The signalling of one session in ui_failsafe.py: the message handler of the script, which is the
  same in both modes, the offer and the answer, and the candidates each side finds. The server
  relays the messages of each side to the other in order, and sends the two session messages
  first. A handler is cut at its awaits, so the messages that arrive while it waits are handled
  in between.
\<close>

section \<open>Servers for candidates\<close>

text \<open>The entries of iceServers as the server sends them; an empty text counts as missing.\<close>

record ice_server =
  urls :: "string list"
  username :: "string option"
  credential :: "string option"

definition truthy_text :: "string option \<Rightarrow> string option" where
  "truthy_text v = (if nonempty v then v else None)"

definition getCleanIceServers :: "ice_server list option \<Rightarrow> ice_server list" where
  "getCleanIceServers iceServers =
     (case iceServers of
        None \<Rightarrow> []
      | Some ss \<Rightarrow> map (\<lambda>s. \<lparr>urls = urls s, username = truthy_text (username s), credential = truthy_text (credential s)\<rparr>) ss)"

section \<open>One side\<close>

datatype 'c signal = HostSession | ClientSession | HostOffer | ClientAnswer | HostIce 'c | ClientIce 'c

text \<open>
  conn is the entry of the session in peerConnections and pendingIceCandidates, making the
  description that is created and set and then sent, local_set whether it is set already,
  setting whether a remote description is being set, and then whether an answer follows it,
  answering whether the loop over the kept candidates is followed by an answer, and made the
  candidates that onicecandidate has given.
\<close>

record 'c peer =
  conn :: "'c ice"
  hosting :: bool
  making :: "'c signal option"
  local_set :: bool
  setting :: "bool option"
  answering :: bool
  made :: "'c list"

definition idle_peer :: "'c peer" where
  "idle_peer = \<lparr>conn = no_session, hosting = False, making = None, local_set = False, setting = None, answering = False, made = []\<rparr>"

text \<open>What the handler of a message does up to its first await.\<close>

definition on_signal :: "'c signal \<Rightarrow> 'c peer \<Rightarrow> 'c peer" where
  "on_signal m p =
     (case m of
        HostSession \<Rightarrow> p\<lparr>conn := new_session (conn p), hosting := True, local_set := False, making := Some HostOffer\<rparr>
      | ClientSession \<Rightarrow> p\<lparr>conn := new_session (conn p), hosting := False, local_set := False\<rparr>
      | HostOffer \<Rightarrow> if has_pc (conn p) then p\<lparr>setting := Some True\<rparr> else p
      | ClientAnswer \<Rightarrow> if has_pc (conn p) then p\<lparr>setting := Some False\<rparr> else p
      | HostIce c \<Rightarrow> p\<lparr>conn := on_candidate (Some c) (conn p)\<rparr>
      | ClientIce c \<Rightarrow> p\<lparr>conn := on_candidate (Some c) (conn p)\<rparr>)"

text \<open>The end of the loop over the kept candidates, or no loop, leads to the answer.\<close>

definition then_answer :: "'c peer \<Rightarrow> 'c peer" where
  "then_answer p =
     (if answering p \<and> flushing (conn p) = None then p\<lparr>answering := False, making := Some ClientAnswer\<rparr> else p)"

datatype 'c local_event = LocalSet | SendDescription | RemoteSet | FlushOne | Found "'c option" | MakingFails | SettingFails

definition local_possible :: "'c local_event \<Rightarrow> 'c peer \<Rightarrow> bool" where
  "local_possible e p =
     (case e of
        LocalSet \<Rightarrow> making p \<noteq> None \<and> \<not> local_set p
      | SendDescription \<Rightarrow> making p \<noteq> None \<and> local_set p
      | RemoteSet \<Rightarrow> setting p \<noteq> None
      | FlushOne \<Rightarrow> flushing (conn p) \<noteq> None
      | Found c \<Rightarrow> local_set p
      | MakingFails \<Rightarrow> making p \<noteq> None \<and> \<not> local_set p
      | SettingFails \<Rightarrow> setting p \<noteq> None)"

definition local_step :: "'c local_event \<Rightarrow> 'c peer \<Rightarrow> 'c peer \<times> 'c signal list" where
  "local_step e p =
     (case e of
        LocalSet \<Rightarrow> (p\<lparr>local_set := True\<rparr>, [])
      | SendDescription \<Rightarrow> (p\<lparr>making := None\<rparr>, case making p of Some m \<Rightarrow> [m] | None \<Rightarrow> [])
      | RemoteSet \<Rightarrow> (then_answer (p\<lparr>conn := description_set (conn p), setting := None, answering := the (setting p)\<rparr>), [])
      | FlushOne \<Rightarrow> (then_answer (p\<lparr>conn := flush_step (conn p)\<rparr>), [])
      | Found None \<Rightarrow> (p, [])
      | Found (Some c) \<Rightarrow> (p\<lparr>made := made p @ [c]\<rparr>, [if hosting p then HostIce c else ClientIce c])
      | MakingFails \<Rightarrow> (p\<lparr>making := None\<rparr>, [])
      | SettingFails \<Rightarrow> (p\<lparr>setting := None\<rparr>, []))"

section \<open>Both sides\<close>

text \<open>True is the host. inbox is what was relayed to a side and not handled yet; failed says that
  an exception ended the offer or the answer somewhere.\<close>

record 'c session =
  sides :: "bool \<Rightarrow> 'c peer"
  inbox :: "bool \<Rightarrow> 'c signal list"
  failed :: bool

definition init_session :: "'c session" where
  "init_session = \<lparr>sides = (\<lambda>_. idle_peer), inbox = (\<lambda>h. [if h then HostSession else ClientSession]), failed = False\<rparr>"

datatype 'c session_event = Deliver bool | Local bool "'c local_event"

definition session_possible :: "'c session_event \<Rightarrow> 'c session \<Rightarrow> bool" where
  "session_possible e s =
     (case e of
        Deliver h \<Rightarrow> inbox s h \<noteq> []
      | Local h l \<Rightarrow> local_possible l (sides s h))"

definition fails :: "'c local_event \<Rightarrow> bool" where
  "fails l \<longleftrightarrow> l = MakingFails \<or> l = SettingFails"

definition session_step :: "'c session_event \<Rightarrow> 'c session \<Rightarrow> 'c session" where
  "session_step e s =
     (case e of
        Deliver h \<Rightarrow> s\<lparr>sides := (sides s)(h := on_signal (hd (inbox s h)) (sides s h)), inbox := (inbox s)(h := tl (inbox s h))\<rparr>
      | Local h l \<Rightarrow>
          (case local_step l (sides s h) of (p, ms) \<Rightarrow>
            s\<lparr>sides := (sides s)(h := p), inbox := (inbox s)(\<not> h := inbox s (\<not> h) @ ms), failed := failed s \<or> fails l\<rparr>))"

inductive session_reach :: "'c session \<Rightarrow> bool" where
  init: "session_reach init_session"
| step: "session_reach s \<Longrightarrow> session_possible e s \<Longrightarrow> session_reach (session_step e s)"


section \<open>An invariant\<close>

definition start_msg :: "bool \<Rightarrow> 'c signal" where
  "start_msg h = (if h then HostSession else ClientSession)"

fun cands :: "'c signal list \<Rightarrow> 'c list" where
  "cands [] = []"
| "cands (HostIce c # ms) = c # cands ms"
| "cands (ClientIce c # ms) = c # cands ms"
| "cands (_ # ms) = cands ms"

lemma cands_append [simp]: "cands (xs @ ys) = cands xs @ cands ys"
  by (induction xs rule: cands.induct) simp_all

definition addressed :: "bool \<Rightarrow> 'c signal \<Rightarrow> bool" where
  "addressed h m \<longleftrightarrow> (case m of HostSession \<Rightarrow> h | ClientSession \<Rightarrow> \<not> h | HostOffer \<Rightarrow> \<not> h | ClientAnswer \<Rightarrow> h
     | HostIce _ \<Rightarrow> \<not> h | ClientIce _ \<Rightarrow> h)"

text \<open>
  Side h, with its inbox q and the candidates mo that the other side has found: before its session
  message it is idle and that message is the first; afterwards every candidate of the other
  side was received, or is in the inbox.
\<close>

definition side_ok :: "bool \<Rightarrow> 'c peer \<Rightarrow> 'c signal list \<Rightarrow> 'c list \<Rightarrow> bool" where
  "side_ok h p q mo \<longleftrightarrow>
     (if has_pc (conn p)
      then start_msg h \<notin> set q \<and> hosting p = h \<and> (\<exists>r. ice_inv (conn p) r \<and> mset r + mset (cands q) = mset mo)
      else p = idle_peer \<and> (\<exists>q'. q = start_msg h # q' \<and> start_msg h \<notin> set q' \<and> mset (cands q') = mset mo)) \<and>
     (\<forall>m \<in> set q. addressed h m) \<and>
     (setting p \<noteq> None \<longrightarrow> setting p = Some (\<not> h) \<and> \<not> has_remote (conn p)) \<and>
     (making p \<noteq> None \<longrightarrow> making p = Some (if h then HostOffer else ClientAnswer)) \<and>
     (answering p \<longrightarrow> \<not> h \<and> flushing (conn p) \<noteq> None)"

text \<open>At most one offer and one answer are on their way or done; n counts those that failed.\<close>

definition offers :: "'c session \<Rightarrow> nat" where
  "offers s = of_bool (making (sides s True) \<noteq> None) + count_list (inbox s False) HostOffer +
     of_bool (setting (sides s False) \<noteq> None) + of_bool (has_remote (conn (sides s False)))"

definition answers :: "'c session \<Rightarrow> nat" where
  "answers s = of_bool (answering (sides s False)) + of_bool (making (sides s False) \<noteq> None) +
     count_list (inbox s True) ClientAnswer + of_bool (setting (sides s True) \<noteq> None) + of_bool (has_remote (conn (sides s True)))"

definition session_inv :: "'c session \<Rightarrow> bool" where
  "session_inv s \<longleftrightarrow>
     (\<forall>h. side_ok h (sides s h) (inbox s h) (made (sides s (\<not> h)))) \<and>
     (\<exists>n k. offers s + n = of_bool (has_pc (conn (sides s True))) \<and>
       answers s + k = of_bool (has_remote (conn (sides s False))) \<and> (failed s \<longleftrightarrow> 0 < n + k))"

lemma idle_simps [simp]:
  "conn idle_peer = no_session" "making idle_peer = None" "setting idle_peer = None" "answering idle_peer = False" "made idle_peer = []"
  "local_set idle_peer = False"
  by (simp_all add: idle_peer_def)

lemma no_session_simps [simp]:
  "has_pc no_session = False" "has_remote no_session = False" "flushing no_session = None"
  by (simp_all add: no_session_def)

lemma ice_simps [simp]:
  "has_pc (new_session i)" "has_remote (new_session i) = False" "flushing (new_session i) = None"
  "has_pc (on_candidate c i) = has_pc i" "has_remote (on_candidate c i) = has_remote i" "flushing (on_candidate c i) = flushing i"
  "has_pc (description_set i) = has_pc i" "has_remote (description_set i) = (has_remote i \<or> has_pc i)"
  "has_pc (flush_step i) = has_pc i" "has_remote (flush_step i) = has_remote i"
  by (auto simp: new_session_def on_candidate_def description_set_def flush_step_def split: option.split list.split)

lemma then_answer_simps [simp]:
  "conn (then_answer p) = conn p" "hosting (then_answer p) = hosting p" "local_set (then_answer p) = local_set p"
  "setting (then_answer p) = setting p" "made (then_answer p) = made p"
  "answering (then_answer p) = (answering p \<and> flushing (conn p) \<noteq> None)"
  "making (then_answer p) = (if answering p \<and> flushing (conn p) = None then Some ClientAnswer else making p)"
  by (auto simp: then_answer_def)

lemma side_ok_started: "side_ok h p q mo \<Longrightarrow> p \<noteq> idle_peer \<Longrightarrow> has_pc (conn p)"
  by (auto simp: side_ok_def split: if_splits)

text \<open>A message is handled.\<close>

lemma side_ok_deliver:
  assumes "side_ok h p (m # q) mo" "m = HostOffer \<or> m = ClientAnswer \<Longrightarrow> \<not> has_remote (conn p)"
  shows "side_ok h (on_signal m p) q mo"
proof (cases "has_pc (conn p)")
  case True
  then obtain r where r: "ice_inv (conn p) r" "mset r + mset (cands (m # q)) = mset mo" and m: "m \<noteq> start_msg h" "addressed h m"
    using assms(1) by (auto simp: side_ok_def)
  have "ice_inv (on_candidate (Some c) (conn p)) (r @ [c])" for c using r(1) by (rule ice_inv_candidate)
  with True assms r m show ?thesis
    by (cases m; cases h) (auto simp: side_ok_def on_signal_def start_msg_def addressed_def intro!: exI [of _ "r @ [_]"])
next
  case False
  with assms(1) have "p = idle_peer" "m = start_msg h" "start_msg h \<notin> set q" "mset (cands q) = mset mo" "\<forall>m \<in> set q. addressed h m"
    by (auto simp: side_ok_def)
  then show ?thesis
    by (cases h) (auto simp: side_ok_def on_signal_def start_msg_def intro!: exI [of _ "[]"] ice_inv_new)
qed

text \<open>A step of the side itself, and the messages of the other side that are added to its inbox.\<close>

lemma idle_impossible: "local_possible l idle_peer \<longleftrightarrow> False"
  by (cases l) (simp_all add: local_possible_def)

lemma side_ok_local:
  assumes "side_ok h p q mo" "local_possible l p"
  shows "side_ok h (fst (local_step l p)) q mo"
proof -
  have pc: "has_pc (conn p)" using side_ok_started [OF assms(1)] assms(2) idle_impossible by metis
  then obtain r where r: "ice_inv (conn p) r" "mset r + mset (cands q) = mset mo" using assms(1) by (auto simp: side_ok_def)
  have d: "ice_inv (description_set (conn p)) r" if "l = RemoteSet"
    using that assms r(1) by (intro ice_inv_described) (auto simp: side_ok_def local_possible_def)
  have f: "ice_inv (flush_step (conn p)) r" if "l = FlushOne"
    using that assms(2) r(1) by (intro ice_inv_flushed) (auto simp: local_possible_def)
  show ?thesis
  proof (cases l)
    case (Found c)
    with assms pc show ?thesis by (cases c) (auto simp: side_ok_def local_step_def)
  qed (use assms pc r d f in \<open>auto simp: side_ok_def local_step_def local_possible_def intro!: exI [of _ r]\<close>)
qed

lemma side_ok_other:
  assumes "side_ok h p q (made p')" "side_ok (\<not> h) p' q' mo'" "local_possible l p'"
  shows "side_ok h p (q @ snd (local_step l p')) (made (fst (local_step l p')))"
proof -
  have pc: "has_pc (conn p')" using side_ok_started [OF assms(2)] assms(3) idle_impossible by metis
  then have h: "hosting p' = (\<not> h)" and m: "making p' \<noteq> None \<Longrightarrow> making p' = Some (if h then ClientAnswer else HostOffer)"
    using assms(2) by (auto simp: side_ok_def)
  show ?thesis
  proof (cases l)
    case (Found c)
    with assms(1) h show ?thesis
      by (cases c; cases h) (auto simp: side_ok_def local_step_def start_msg_def addressed_def)
  next
    case SendDescription
    then have "making p' = Some (if h then ClientAnswer else HostOffer)"
      using m assms(3) by (simp add: local_possible_def)
    with assms(1) SendDescription show ?thesis
      by (cases h) (auto simp: side_ok_def local_step_def start_msg_def addressed_def)
  qed (use assms(1) in \<open>simp_all add: local_step_def\<close>)
qed

lemma made_on_signal [simp]: "made (on_signal m p) = made p"
  by (cases m) (simp_all add: on_signal_def)

lemma session_invD:
  assumes "session_inv s"
  shows "side_ok h (sides s h) (inbox s h) (made (sides s (\<not> h)))"
    and "offers s \<le> 1" and "answers s \<le> 1"
  using assms by (auto simp: session_inv_def of_bool_def split: if_splits)

lemma deliver_fresh:
  assumes "session_inv s" "inbox s h = m # q" "m = HostOffer \<or> m = ClientAnswer"
  shows "\<not> has_remote (conn (sides s h))"
proof -
  have "addressed h m" using session_invD(1) [OF assms(1), of h] assms(2) by (simp add: side_ok_def)
  with assms(2,3) session_invD(2,3) [OF assms(1)] show ?thesis
    by (cases h) (auto simp: addressed_def offers_def answers_def split: if_splits)
qed

text \<open>The numbers of offers and answers, in a step.\<close>

lemma counts_deliver:
  assumes "session_inv s" "inbox s h = m # q"
  shows "\<exists>n k. offers (session_step (Deliver h) s) + n = of_bool (has_pc (conn (sides (session_step (Deliver h) s) True))) \<and>
    answers (session_step (Deliver h) s) + k = of_bool (has_remote (conn (sides (session_step (Deliver h) s) False))) \<and>
    (failed s \<longleftrightarrow> 0 < n + k)"
proof -
  obtain n k where nk: "offers s + n = of_bool (has_pc (conn (sides s True)))"
      "answers s + k = of_bool (has_remote (conn (sides s False)))" "failed s \<longleftrightarrow> 0 < n + k"
    using assms(1) unfolding session_inv_def by blast
  note o = session_invD(1) [OF assms(1), of h, unfolded side_ok_def assms(2)]
  have a: "addressed h m" and st: "m = start_msg h \<longleftrightarrow> \<not> has_pc (conn (sides s h))"
    and idle: "\<not> has_pc (conn (sides s h)) \<Longrightarrow> sides s h = idle_peer"
    using o by (auto split: if_splits)
  let ?s = "session_step (Deliver h) s"
  have e: "sides ?s = (sides s)(h := on_signal m (sides s h))" "inbox ?s = (inbox s)(h := q)"
    using assms(2) by (simp_all add: session_step_def)
  have v: "setting (sides s h) = None \<and> has_pc (conn (sides s h))" if "m = HostOffer \<or> m = ClientAnswer"
    using that a st assms(2) session_invD(2,3) [OF assms(1)]
    by (cases h) (auto simp: addressed_def offers_def answers_def start_msg_def split: if_splits)
  note d = on_signal_def start_msg_def addressed_def
  have "offers ?s + n = of_bool (has_pc (conn (sides ?s True)))"
    using nk(1) a st idle v assms(2) unfolding e offers_def by (cases m; cases h) (simp_all add: d)
  moreover have "answers ?s + k = of_bool (has_remote (conn (sides ?s False)))"
    using nk(2) a st idle v assms(2) unfolding e answers_def by (cases m; cases h) (simp_all add: d)
  ultimately show ?thesis using nk(3) by blast
qed

lemma local_step_counts:
  fixes p :: "'c peer"
  assumes "side_ok h p q mo" "local_possible l p" "of_bool (answering p) + of_bool (making p \<noteq> None) \<le> (1 :: nat)"
  defines "p' \<equiv> fst (local_step l p)" and "ms \<equiv> snd (local_step l p)"
  shows "of_bool (setting p' \<noteq> None) + of_bool (has_remote (conn p')) + of_bool (l = SettingFails) =
      (of_bool (setting p \<noteq> None) + of_bool (has_remote (conn p)) :: nat)"
    and "h \<Longrightarrow> of_bool (making p' \<noteq> None) + count_list ms HostOffer + of_bool (l = MakingFails) = of_bool (making p \<noteq> None)"
    and "\<not> h \<Longrightarrow> of_bool (answering p') + of_bool (making p' \<noteq> None) + count_list ms ClientAnswer + of_bool (l = MakingFails) +
      of_bool (has_remote (conn p)) = of_bool (answering p) + of_bool (making p \<noteq> None) + of_bool (has_remote (conn p'))"
    and "h \<Longrightarrow> count_list ms ClientAnswer = 0" "\<not> h \<Longrightarrow> count_list ms HostOffer = 0"
    and "has_pc (conn p') = has_pc (conn p)"
proof -
  have pc: "has_pc (conn p)" using side_ok_started [OF assms(1)] assms(2) idle_impossible by metis
  then obtain r where "ice_inv (conn p) r" using assms(1) by (auto simp: side_ok_def)
  then have i: "pending (conn p) \<noteq> None" "flushing (conn p) \<noteq> None \<Longrightarrow> has_remote (conn p)" by (auto simp: ice_inv_def)
  have fd: "flushing (description_set (conn p)) = pending (conn p)" using pc by (simp add: description_set_def)
  have m: "making p \<noteq> None \<Longrightarrow> making p = Some (if h then HostOffer else ClientAnswer)"
    and s: "setting p \<noteq> None \<Longrightarrow> setting p = Some (\<not> h) \<and> \<not> has_remote (conn p)"
    and a: "answering p \<Longrightarrow> \<not> h \<and> flushing (conn p) \<noteq> None"
    using assms(1) by (simp_all add: side_ok_def)
  note d = p'_def ms_def local_step_def
  show "of_bool (setting p' \<noteq> None) + of_bool (has_remote (conn p')) + of_bool (l = SettingFails) =
      (of_bool (setting p \<noteq> None) + of_bool (has_remote (conn p)) :: nat)"
    using assms(2) s pc unfolding d by (cases l) (auto simp: local_possible_def split: option.splits)
  show "of_bool (making p' \<noteq> None) + count_list ms HostOffer + of_bool (l = MakingFails) = of_bool (making p \<noteq> None)" if h
    using assms(2) m s a that unfolding d by (cases l) (auto simp: local_possible_def split: option.splits)
  show "of_bool (answering p') + of_bool (making p' \<noteq> None) + count_list ms ClientAnswer + of_bool (l = MakingFails) +
      of_bool (has_remote (conn p)) = of_bool (answering p) + of_bool (making p \<noteq> None) + of_bool (has_remote (conn p'))" if "\<not> h"
    using assms(2,3) m s a i fd pc that unfolding d by (cases l) (auto simp: local_possible_def of_bool_def split: option.splits if_splits)
  show "count_list ms ClientAnswer = 0" if h
    using m that unfolding d by (cases l) (auto split: option.split)
  show "count_list ms HostOffer = 0" if "\<not> h"
    using m that unfolding d by (cases l) (auto split: option.split)
  show "has_pc (conn p') = has_pc (conn p)"
    unfolding d by (cases l) (auto split: option.split)
qed

lemma pos_sum: "(0 < a + b \<or> 0 < c + d) = (0 < (a + c) + (b + d))" for a b c d :: nat
  by auto

lemma sum_shift: "a + m = b \<Longrightarrow> b + n = c \<Longrightarrow> a + (n + m) = c" for a b c m n :: nat
  by simp

lemma sum_exchange: "a + m + r = b + r' \<Longrightarrow> b + k = r \<Longrightarrow> a + (k + m) = r'" for a b k m r r' :: nat
  by simp

lemma counts_local:
  assumes "session_inv s" "local_possible l (sides s h)"
  shows "\<exists>n k. offers (session_step (Local h l) s) + n = of_bool (has_pc (conn (sides (session_step (Local h l) s) True))) \<and>
    answers (session_step (Local h l) s) + k = of_bool (has_remote (conn (sides (session_step (Local h l) s) False))) \<and>
    (failed s \<or> fails l \<longleftrightarrow> 0 < n + k)"
proof -
  obtain n k where nk: "offers s + n = of_bool (has_pc (conn (sides s True)))"
      "answers s + k = of_bool (has_remote (conn (sides s False)))" "failed s \<longleftrightarrow> 0 < n + k"
    using assms(1) unfolding session_inv_def by blast
  have b: "of_bool (answering (sides s h)) + of_bool (making (sides s h) \<noteq> None) \<le> (1 :: nat)"
    using session_invD(1) [OF assms(1), of h] session_invD(3) [OF assms(1)]
    by (cases h) (auto simp: side_ok_def answers_def)
  note c = local_step_counts [OF session_invD(1) [OF assms(1)] assms(2) b]
  let ?m = "of_bool (l = MakingFails) :: nat" and ?t = "of_bool (l = SettingFails) :: nat"
  let ?s = "session_step (Local h l) s" and ?p = "fst (local_step l (sides s h))" and ?ms = "snd (local_step l (sides s h))"
  have e: "sides ?s = (sides s)(h := ?p)" "inbox ?s = (inbox s)(\<not> h := inbox s (\<not> h) @ ?ms)"
    by (simp_all add: session_step_def split: prod.split)
  have f: "fails l \<longleftrightarrow> 0 < ?m + ?t" by (auto simp: fails_def)
  show ?thesis
  proof (cases h)
    case True
    have o: "offers ?s + ?m = offers s" "answers ?s + ?t = answers s"
      using c(1) c(2,4) [OF True] unfolding e offers_def answers_def by (simp_all add: True)
    have p: "has_pc (conn (sides ?s True)) = has_pc (conn (sides s True))" "conn (sides ?s False) = conn (sides s False)"
      using c(6) True unfolding e by simp_all
    have A: "offers ?s + (n + ?m) = of_bool (has_pc (conn (sides ?s True)))" unfolding p by (rule sum_shift [OF o(1) nk(1)])
    have B: "answers ?s + (k + ?t) = of_bool (has_remote (conn (sides ?s False)))" unfolding p by (rule sum_shift [OF o(2) nk(2)])
    have C: "failed s \<or> fails l \<longleftrightarrow> 0 < (n + ?m) + (k + ?t)" unfolding nk(3) f by (rule pos_sum)
    show ?thesis by (rule exI [of _ "n + ?m"], rule exI [of _ "k + ?t"], intro conjI A B C)
  next
    case False
    have o: "offers ?s + ?t = offers s" "answers ?s + ?m + of_bool (has_remote (conn (sides s False))) =
        answers s + of_bool (has_remote (conn ?p))"
      using c(1) c(3,5) [OF False] unfolding e offers_def answers_def by (simp_all add: False)
    have p: "sides ?s True = sides s True" "conn (sides ?s False) = conn ?p"
      using False unfolding e by simp_all
    have A: "offers ?s + (n + ?t) = of_bool (has_pc (conn (sides ?s True)))" unfolding p by (rule sum_shift [OF o(1) nk(1)])
    have B: "answers ?s + (k + ?m) = of_bool (has_remote (conn (sides ?s False)))" unfolding p by (rule sum_exchange [OF o(2) nk(2)])
    have C: "failed s \<or> fails l \<longleftrightarrow> 0 < (n + ?t) + (k + ?m)"
      unfolding nk(3) f by (simp only: pos_sum add.commute [of ?m])
    show ?thesis by (rule exI [of _ "n + ?t"], rule exI [of _ "k + ?m"], intro conjI A B C)
  qed
qed

lemma session_inv_step:
  assumes "session_inv s" "session_possible e s"
  shows "session_inv (session_step e s)"
proof (cases e)
  case (Deliver h)
  then obtain m q where q: "inbox s h = m # q" using assms(2) by (cases "inbox s h") (auto simp: session_possible_def)
  have "side_ok h (on_signal m (sides s h)) q (made (sides s (\<not> h)))"
    by (rule side_ok_deliver) (use session_invD(1) [OF assms(1), of h] deliver_fresh [OF assms(1) q] q in auto)
  moreover have "side_ok (\<not> h) (sides s (\<not> h)) (inbox s (\<not> h)) (made (sides s h))"
    using session_invD(1) [OF assms(1), of "\<not> h"] by simp
  ultimately have "side_ok i (sides (session_step e s) i) (inbox (session_step e s) i) (made (sides (session_step e s) (\<not> i)))" for i
    using q Deliver by (cases "i = h") (auto simp: session_step_def)
  with counts_deliver [OF assms(1) q] Deliver show ?thesis by (simp add: session_inv_def session_step_def)
next
  case (Local h l)
  then have l: "local_possible l (sides s h)" using assms(2) by (simp add: session_possible_def)
  note o = session_invD(1) [OF assms(1)]
  have a: "side_ok h (fst (local_step l (sides s h))) (inbox s h) (made (sides s (\<not> h)))"
    by (rule side_ok_local [OF o l])
  have "side_ok (\<not> h) (sides s (\<not> h)) (inbox s (\<not> h) @ snd (local_step l (sides s h))) (made (fst (local_step l (sides s h))))"
    by (rule side_ok_other [OF _ _ l]) (use o [of "\<not> h"] o [of h] in auto)
  with a have "side_ok i (sides (session_step e s) i) (inbox (session_step e s) i) (made (sides (session_step e s) (\<not> i)))" for i
    using Local by (cases "i = h") (auto simp: session_step_def split: prod.split)
  moreover have "failed (session_step e s) \<longleftrightarrow> failed s \<or> fails l"
    using Local by (simp add: session_step_def split: prod.split)
  ultimately show ?thesis using counts_local [OF assms(1) l] Local by (simp add: session_inv_def)
qed

lemma session_inv_init: "session_inv init_session"
  by (auto simp: session_inv_def side_ok_def init_session_def start_msg_def addressed_def offers_def answers_def)

lemma session_reach_inv: "session_reach s \<Longrightarrow> session_inv s"
  by (induction rule: session_reach.induct) (auto intro: session_inv_init session_inv_step)

section \<open>Candidates go through a lossless channel\<close>

text \<open>The abstract channel from one side to the other: what was put into it, and what came out.\<close>

inductive chan_step :: "'c multiset \<times> 'c multiset \<Rightarrow> 'c multiset \<times> 'c multiset \<Rightarrow> bool" where
  send: "chan_step (m, g) (add_mset c m, g)"
| get: "c \<in># m - g \<Longrightarrow> chan_step (m, g) (m, add_mset c g)"

definition chan :: "'c session \<Rightarrow> bool \<Rightarrow> 'c multiset \<times> 'c multiset" where
  "chan s h = (mset (made (sides s h)), mset (given (conn (sides s (\<not> h)))))"

lemma side_ok_given:
  assumes "side_ok h p q mo"
  shows "mset mo = mset (given (conn p)) + mset (kept (conn p)) + mset (cands q)"
proof (cases "has_pc (conn p)")
  case True
  then show ?thesis using assms by (auto simp: side_ok_def ice_inv_def)
qed (use assms in \<open>auto simp: side_ok_def start_msg_def no_session_def kept_def\<close>)

lemma given_on_signal:
  assumes "side_ok h p (m # q) mo"
  shows "given (conn (on_signal m p)) = given (conn p) \<or>
    (\<exists>c. cands [m] = [c] \<and> given (conn (on_signal m p)) = given (conn p) @ [c])"
proof (cases "has_pc (conn p)")
  case True
  then have "m \<noteq> start_msg h" "addressed h m" using assms by (auto simp: side_ok_def)
  then show ?thesis by (cases m; cases h) (auto simp: on_signal_def on_candidate_def start_msg_def addressed_def)
next
  case False
  then have "p = idle_peer" "m = start_msg h" using assms by (auto simp: side_ok_def)
  then show ?thesis by (auto simp: on_signal_def start_msg_def new_session_def no_session_def)
qed

lemma given_local_step:
  "given (conn (fst (local_step l p))) = given (conn p) \<or>
    (\<exists>c cs. kept (conn p) = c # cs \<and> given (conn (fst (local_step l p))) = given (conn p) @ [c])"
proof (cases l)
  case FlushOne
  show ?thesis
  proof (cases "flushing (conn p)")
    case (Some cs)
    then show ?thesis by (cases cs) (auto simp: FlushOne local_step_def flush_step_def kept_def)
  qed (simp add: FlushOne local_step_def flush_step_def)
qed (auto simp: local_step_def description_set_def split: option.split)

lemma made_local_step:
  "made (fst (local_step l p)) = made p \<or> (\<exists>c. l = Found (Some c) \<and> made (fst (local_step l p)) = made p @ [c] \<and> conn (fst (local_step l p)) = conn p)"
  by (cases l) (auto simp: local_step_def split: option.split)

lemma chan_get:
  "mset mo = mset g + mset (c # cs) + k \<Longrightarrow> chan_step (mset mo, mset g) (mset mo, mset (g @ [c]))"
  using chan_step.get [of c "mset mo" "mset g"] by simp

text \<open>C4: Every step of a session is, seen from either side, a step of a lossless channel for the
  candidates or leaves it as it is: what a connection is given was found by the other side and
  not given before. So no candidate is lost, changed or given twice, in whatever order messages,
  descriptions and loops interleave.\<close>

theorem signalling_refines_channel:
  assumes "session_reach s" "session_possible e s"
  shows "chan (session_step e s) h = chan s h \<or> chan_step (chan s h) (chan (session_step e s) h)"
proof (cases e)
  case (Deliver i)
  then obtain m q where q: "inbox s i = m # q" using assms(2) by (cases "inbox s i") (auto simp: session_possible_def)
  note o = session_invD(1) [OF session_reach_inv [OF assms(1)], of i, unfolded q]
  have m: "made (sides (session_step e s) h) = made (sides s h)" for h
    using Deliver q by (simp add: session_step_def)
  have g: "conn (sides (session_step e s) (\<not> h)) = (if i = (\<not> h) then conn (on_signal m (sides s i)) else conn (sides s (\<not> h)))"
    using Deliver q by (auto simp: session_step_def)
  show ?thesis
  proof (cases "i = (\<not> h) \<and> given (conn (on_signal m (sides s i))) \<noteq> given (conn (sides s i))")
    case True
    then obtain c where c: "cands [m] = [c]" "given (conn (on_signal m (sides s i))) = given (conn (sides s i)) @ [c]"
      using given_on_signal [OF o] by blast
    have "mset (made (sides s h)) = mset (given (conn (sides s i))) + mset (c # cands q) + mset (kept (conn (sides s i)))"
      using side_ok_given [OF o] c(1) True cands_append [of "[m]" q] by simp
    from chan_get [OF this] show ?thesis using True c(2) m g by (simp add: chan_def)
  qed (auto simp: chan_def m g)
next
  case (Local i l)
  let ?p = "sides s i"
  have p: "sides (session_step e s) j = (if i = j then fst (local_step l ?p) else sides s j)" for j
    using Local by (auto simp: session_step_def split: prod.split)
  show ?thesis
  proof (cases "i = h")
    case True
    with made_local_step [of l ?p] show ?thesis by (auto simp: chan_def p intro: chan_step.send)
  next
    case False
    then have i: "i = (\<not> h)" by auto
    note o = side_ok_given [OF session_invD(1) [OF session_reach_inv [OF assms(1)], of i]]
    show ?thesis
    proof (cases "given (conn (fst (local_step l ?p))) = given (conn ?p)")
      case False
      then obtain c cs where c: "kept (conn ?p) = c # cs" "given (conn (fst (local_step l ?p))) = given (conn ?p) @ [c]"
        using given_local_step [of l ?p] by blast
      have "mset (made (sides s h)) = mset (given (conn ?p)) + mset (c # cs) + mset (cands (inbox s i))"
        using o c(1) i by simp
      from chan_get [OF this] show ?thesis using c(2) i by (simp add: chan_def p)
    qed (use i in \<open>simp add: chan_def p\<close>)
  qed
qed

section \<open>A session ends, and is then complete\<close>

text \<open>A bound of the steps still to come, apart from new candidates.\<close>

definition msg_work :: "'c signal \<Rightarrow> nat" where
  "msg_work m = (case m of HostSession \<Rightarrow> 11 | ClientSession \<Rightarrow> 1 | HostOffer \<Rightarrow> 8 | ClientAnswer \<Rightarrow> 3 | HostIce _ \<Rightarrow> 2 | ClientIce _ \<Rightarrow> 2)"

definition peer_work :: "'c peer \<Rightarrow> nat" where
  "peer_work p =
     (case making p of None \<Rightarrow> 0 | Some m \<Rightarrow> msg_work m + (if local_set p then 1 else 2)) +
     (case setting p of None \<Rightarrow> 0 | Some a \<Rightarrow> if a then 7 else 2) +
     (if flushing (conn p) = None then 0 else if answering p then 6 else 1) + length (kept (conn p))"

definition session_work :: "'c session \<Rightarrow> nat" where
  "session_work s = peer_work (sides s True) + peer_work (sides s False) +
     sum_list (map msg_work (inbox s True)) + sum_list (map msg_work (inbox s False))"

definition finds :: "'c session_event \<Rightarrow> bool" where
  "finds e \<longleftrightarrow> (case e of Local h (Found c) \<Rightarrow> True | _ \<Rightarrow> False)"

fun run_session :: "'c session_event list \<Rightarrow> 'c session \<Rightarrow> 'c session option" where
  "run_session [] s = Some s"
| "run_session (e # es) s = (if session_possible e s then run_session es (session_step e s) else None)"

text \<open>Each side has the description of the other and was given exactly the candidates the other found.\<close>

definition side_done :: "'c session \<Rightarrow> bool \<Rightarrow> bool" where
  "side_done s h \<longleftrightarrow> has_remote (conn (sides s h)) \<and> kept (conn (sides s h)) = [] \<and>
     mset (given (conn (sides s h))) = mset (made (sides s (\<not> h)))"

lemma kept_simps [simp]: "kept (new_session i) = []" "kept no_session = []"
  by (simp_all add: kept_def new_session_def no_session_def)

lemma kept_candidate: "length (kept (on_candidate (Some c) i)) \<le> length (kept i) + 1"
  by (auto simp: kept_def on_candidate_def split: option.split)

lemma kept_described: "flushing i = None \<Longrightarrow> kept (description_set i) = kept i"
  by (auto simp: kept_def description_set_def split: option.split)

lemma kept_flushed:
  "flushing i \<noteq> None \<Longrightarrow> (if flushing (flush_step i) = None then kept (flush_step i) = kept i \<and> kept i = []
     else length (kept i) = Suc (length (kept (flush_step i))))"
  by (cases "the (flushing i)") (auto simp: kept_def flush_step_def)

lemma work_deliver:
  assumes "side_ok h p (m # q) mo"
  shows "peer_work (on_signal m p) < peer_work p + msg_work m"
proof (cases "has_pc (conn p)")
  case True
  then have "m \<noteq> start_msg h" "addressed h m" using assms by (auto simp: side_ok_def)
  with True show ?thesis
    using kept_candidate [of _ "conn p"]
    by (cases m; cases h)
       (auto simp: peer_work_def msg_work_def on_signal_def start_msg_def addressed_def le_imp_less_Suc split: option.split)
next
  case False
  then have "p = idle_peer" "m = start_msg h" using assms by (auto simp: side_ok_def)
  then show ?thesis by (auto simp: peer_work_def msg_work_def on_signal_def start_msg_def)
qed

lemma work_local:
  assumes "side_ok h p q mo" "local_possible l p" "\<And>c. l \<noteq> Found c"
    and "answering p \<Longrightarrow> making p = None"
  shows "peer_work (fst (local_step l p)) + sum_list (map msg_work (snd (local_step l p))) < peer_work p"
proof -
  have pc: "has_pc (conn p)" using side_ok_started [OF assms(1)] assms(2) idle_impossible by metis
  then obtain r where "ice_inv (conn p) r" using assms(1) by (auto simp: side_ok_def)
  then have i: "flushing (conn p) \<noteq> None \<Longrightarrow> has_remote (conn p)" "pending (conn p) \<noteq> None" by (auto simp: ice_inv_def)
  have d: "flushing (description_set (conn p)) = pending (conn p)" using pc by (simp add: description_set_def)
  have "setting p \<noteq> None \<Longrightarrow> \<not> has_remote (conn p)" using assms(1) by (simp add: side_ok_def)
  with i(1) have s: "setting p \<noteq> None \<Longrightarrow> flushing (conn p) = None" by blast
  show ?thesis
  proof (cases l)
    case FlushOne
    with assms(2) have f: "flushing (conn p) \<noteq> None" by (simp add: local_possible_def)
    from kept_flushed [OF this] f assms(4) show ?thesis
      by (auto simp: FlushOne local_step_def peer_work_def msg_work_def split: if_splits option.split)
  next
    case RemoteSet
    with assms(2) have f: "setting p \<noteq> None" by (simp add: local_possible_def)
    from kept_described [OF s [OF this]] f i(2) s [OF f] show ?thesis
      by (auto simp: RemoteSet local_step_def peer_work_def d split: option.split)
  qed (use assms(2,3) in \<open>auto simp: local_step_def local_possible_def peer_work_def split: option.split\<close>)
qed

lemma work_step:
  assumes "session_reach s" "session_possible e s" "\<not> finds e"
  shows "session_work (session_step e s) < session_work s"
proof (cases e)
  case (Deliver h)
  then obtain m q where q: "inbox s h = m # q" using assms(2) by (cases "inbox s h") (auto simp: session_possible_def)
  from work_deliver [OF session_invD(1) [OF session_reach_inv [OF assms(1)], of h, unfolded q]] q Deliver show ?thesis
    by (cases h) (auto simp: session_work_def session_step_def)
next
  case (Local h l)
  note i = session_reach_inv [OF assms(1)]
  have l: "local_possible l (sides s h)" "\<And>c. l \<noteq> Found c" using Local assms(2,3) by (auto simp: session_possible_def finds_def)
  have "making (sides s h) = None" if "answering (sides s h)"
    using that session_invD(1) [OF i, of h] session_invD(3) [OF i] by (cases h) (auto simp: side_ok_def answers_def)
  from work_local [OF session_invD(1) [OF i, of h] l this] Local show ?thesis
    by (cases h) (auto simp: session_work_def session_step_def split: prod.splits)
qed

lemma stuck_done:
  assumes "session_reach s" "\<forall>e. session_possible e s \<longrightarrow> finds e" "\<not> failed s"
  shows "side_done s h"
proof -
  note i = session_reach_inv [OF assms(1)]
  have q: "inbox s h = []" for h using assms(2) [rule_format, of "Deliver h"] by (auto simp: session_possible_def finds_def)
  have l: "\<not> local_possible l (sides s h)" if "\<And>c. l \<noteq> Found c" for l h
    using assms(2) [rule_format, of "Local h l"] that by (cases l) (auto simp: session_possible_def finds_def)
  have n: "making (sides s h) = None" "setting (sides s h) = None" "flushing (conn (sides s h)) = None" for h
    using l [of LocalSet h] l [of SendDescription h] l [of RemoteSet h] l [of FlushOne h] by (auto simp: local_possible_def)
  then have a: "\<not> answering (sides s h)" for h using session_invD(1) [OF i, of h] by (auto simp: side_ok_def)
  have pc: "has_pc (conn (sides s h))" for h
    using session_invD(1) [OF i, of h] q [of h] by (auto simp: side_ok_def split: if_splits)
  have o: "offers s = of_bool (has_remote (conn (sides s False)))" "answers s = of_bool (has_remote (conn (sides s True)))"
    by (simp_all add: offers_def answers_def n a q)
  obtain j k where "offers s + j = of_bool (has_pc (conn (sides s True)))"
      "answers s + k = of_bool (has_remote (conn (sides s False)))" "failed s \<longleftrightarrow> 0 < j + k"
    using i unfolding session_inv_def by blast
  with assms(3) have "offers s = 1" "answers s = of_bool (has_remote (conn (sides s False)))" by (simp_all add: pc)
  then have "has_remote (conn (sides s False))" "has_remote (conn (sides s True))" unfolding o by (simp_all only: of_bool_eq_1_iff of_bool_eq_iff)
  then have "has_remote (conn (sides s h))" for h by (cases h) simp_all
  moreover have "kept (conn (sides s h)) = []"
    using session_invD(1) [OF i, of h] pc [of h] n(3) [of h] calculation [of h] by (auto simp: side_ok_def ice_inv_def kept_def)
  ultimately show ?thesis
    using side_ok_given [OF session_invD(1) [OF i, of h]] q [of h] by (simp add: side_done_def)
qed

lemma run_session_work:
  "run_session es s = Some t \<Longrightarrow> session_reach s \<Longrightarrow> list_all (\<lambda>e. \<not> finds e) es \<Longrightarrow>
    session_reach t \<and> length es + session_work t \<le> session_work s"
proof (induction es arbitrary: s)
  case (Cons e es)
  then have e: "session_possible e s" "run_session es (session_step e s) = Some t" by (auto split: if_splits)
  from Cons.IH [OF e(2) session_reach.step [OF Cons.prems(2) e(1)]] work_step [OF Cons.prems(2) e(1)] Cons.prems(3)
  show ?case by simp
qed simp

text \<open>C3: From every state of a session, once no new candidates are found, the exchange ends after at
  most session_work steps, in whatever order they happen; and where it ends, unless an exception
  ended the offer or the answer, both sides have the description of the other and were given
  exactly the candidates that the other side found.\<close>

theorem session_completes:
  assumes "session_reach s" "run_session es s = Some t" "list_all (\<lambda>e. \<not> finds e) es"
  shows "length es \<le> session_work s \<and>
    ((\<forall>e. session_possible e t \<longrightarrow> finds e) \<and> \<not> failed t \<longrightarrow> side_done t True \<and> side_done t False)"
  using run_session_work [OF assms(2,1,3)] stuck_done [of t] by auto

text \<open>A session in which each side finds one candidate, the host before its offer is sent.\<close>

definition sample_session :: "nat session_event list" where
  "sample_session =
     [Deliver True, Local True LocalSet, Local True (Found (Some 1)), Local True SendDescription, Deliver False, Deliver False,
      Deliver False, Local False RemoteSet, Local False FlushOne, Local False FlushOne, Local False LocalSet, Local False (Found (Some 2))]"

definition sample_rest :: "nat session_event list" where
  "sample_rest = [Local False SendDescription, Deliver True, Deliver True, Local True RemoteSet, Local True FlushOne, Local True FlushOne]"

lemma run_session_reach: "run_session es s = Some t \<Longrightarrow> session_reach s \<Longrightarrow> session_reach t"
  by (induction es arbitrary: s) (auto split: if_splits intro: session_reach.step)

definition rests :: "'c session \<Rightarrow> bool \<Rightarrow> bool" where
  "rests s h \<longleftrightarrow> inbox s h = [] \<and> making (sides s h) = None \<and> setting (sides s h) = None \<and> flushing (conn (sides s h)) = None"

lemma rests_stuck: "rests s True \<Longrightarrow> rests s False \<Longrightarrow> session_possible e s \<Longrightarrow> finds e"
proof -
  assume r: "rests s True" "rests s False" "session_possible e s"
  then have "rests s h" for h by (cases h) simp_all
  with r(3) show ?thesis
    by (auto simp: rests_def session_possible_def finds_def local_possible_def split: session_event.splits local_event.splits)
qed

definition sample_mid :: "nat session" where
  "sample_mid = the (run_session sample_session init_session)"

definition sample_end :: "nat session" where
  "sample_end = the (run_session sample_rest sample_mid)"

lemma sample_runs: "run_session sample_session init_session \<noteq> None" "run_session sample_rest sample_mid \<noteq> None"
  by code_simp+

lemma sample_mid_reach: "session_reach sample_mid"
  using sample_runs(1) run_session_reach [OF _ session_reach.init] by (auto simp: sample_mid_def)

definition sample_described :: "nat session" where
  "sample_described = the (run_session (take 8 sample_session) init_session)"

theorem signalling_refines_channel_witness:
  "chan_step (chan sample_described True) (chan (session_step (Local False FlushOne) sample_described) True)"
proof -
  have r: "run_session (take 8 sample_session) init_session \<noteq> None" "session_possible (Local False FlushOne) sample_described"
    by code_simp+
  have g: "given (conn (sides sample_described False)) = []"
    "given (conn (sides (session_step (Local False FlushOne) sample_described) False)) = [1]"
    by code_simp+
  have "session_reach sample_described"
    using r(1) run_session_reach [OF _ session_reach.init] by (auto simp: sample_described_def)
  from signalling_refines_channel [OF this r(2), of True] g show ?thesis by (auto simp: chan_def)
qed

theorem session_completes_witness:
  "length sample_rest \<le> session_work sample_mid \<and> side_done sample_end True \<and> side_done sample_end False"
proof -
  have r: "run_session sample_rest sample_mid = Some sample_end" using sample_runs(2) by (auto simp: sample_end_def)
  have "rests sample_end True" "rests sample_end False" "\<not> failed sample_end" "list_all (\<lambda>e. \<not> finds e) sample_rest"
    by code_simp+
  with session_completes [OF sample_mid_reach r] rests_stuck [of sample_end] show ?thesis by blast
qed

end
