(* ===== verification/Capture.thy ===== *)
theory Capture
  imports Failsafe_Host Audio
begin

text \<open>
  What startShare and togglePause ask the browser for (ui_failsafe.py, lines 601 to 670 and 728
  to 758): the three requests for the screen, the device taken for the sound of the computer
  where the screen comes without sound, and the ways the freezing of a picture can end. What the
  browser answers is an argument; the rest of the functions is in Failsafe_Page.
\<close>

section \<open>The screen\<close>

text \<open>
  A request for the screen; None stands for an option that is not given. Every request asks for
  video and audio.
\<close>

record display_request =
  display_surface :: "string option"
  frame_rate :: "nat option"
  raw_audio :: bool
  system_audio :: "string option"
  self_surface :: "string option"
  surface_switching :: "string option"
  monitor_surfaces :: "string option"

definition plain_request :: display_request where
  "plain_request =
     \<lparr>display_surface = None, frame_rate = None, raw_audio = False, system_audio = None,
      self_surface = None, surface_switching = None, monitor_surfaces = None\<rparr>"

definition display_requests :: "display_request list" where
  "display_requests =
     [\<lparr>display_surface = Some ''monitor'', frame_rate = Some 60, raw_audio = False, system_audio = Some ''include'',
       self_surface = Some ''exclude'', surface_switching = Some ''include'', monitor_surfaces = Some ''include''\<rparr>,
      plain_request\<lparr>raw_audio := True, system_audio := Some ''include''\<rparr>,
      plain_request]"

text \<open>Each request is made only after the one before it was refused.\<close>

fun first_accepted :: "('r \<Rightarrow> 'a option) \<Rightarrow> 'r list \<Rightarrow> 'a option" where
  "first_accepted ask [] = None"
| "first_accepted ask (r # rs) = (case ask r of Some x \<Rightarrow> Some x | None \<Rightarrow> first_accepted ask rs)"

definition capture_screen :: "(display_request \<Rightarrow> nat option) \<Rightarrow> nat option" where
  "capture_screen ask = first_accepted ask display_requests"

lemma first_accepted_None: "first_accepted ask rs = None \<longleftrightarrow> (\<forall>r \<in> set rs. ask r = None)"
  by (induction rs) (auto split: option.split)

lemma first_accepted_Some:
  "first_accepted ask rs = Some x \<Longrightarrow> \<exists>qs r. (\<exists>ps. rs = qs @ r # ps) \<and> (\<forall>q \<in> set qs. ask q = None) \<and> ask r = Some x"
proof (induction rs)
  case (Cons r rs)
  show ?case
  proof (cases "ask r")
    case None
    with Cons obtain qs q ps where "rs = qs @ q # ps" "\<forall>q \<in> set qs. ask q = None" "ask q = Some x" by auto
    with None show ?thesis by (intro exI [of _ "r # qs"] exI [of _ q]) auto
  next
    case (Some y)
    with Cons.prems show ?thesis by (intro exI [of _ "[]"] exI [of _ r]) auto
  qed
qed simp

section \<open>The sound of the computer\<close>

record device =
  dev_kind :: string
  dev_label :: string
  dev_id :: string

definition loopback_labels :: "string list" where
  "loopback_labels =
     [''stereo mix'', ''what u hear'', ''cable output'', ''virtual'', ''computer sound'', ''monitor'', ''mix'']"

definition is_loopback_device :: "device \<Rightarrow> bool" where
  "is_loopback_device d \<longleftrightarrow>
     dev_kind d = ''audioinput'' \<and> list_ex (\<lambda>s. contains s (map lower_char (dev_label d))) loopback_labels"

text \<open>
  The device asked for, None for the default one; the processing is switched off in both cases.
  The list of devices is empty where it cannot be had.
\<close>

definition loopback_request :: "device list option \<Rightarrow> string option" where
  "loopback_request devices =
     map_option dev_id (find is_loopback_device (case devices of Some ds \<Rightarrow> ds | None \<Rightarrow> []))"

text \<open>The number of audio tracks, None for an exception.\<close>

definition capture_loopback :: "(string option \<Rightarrow> nat option) \<Rightarrow> device list option \<Rightarrow> nat option" where
  "capture_loopback user_media devices = user_media (loopback_request devices)"

text \<open>Both captures of a start that is not interrupted.\<close>

definition capture_all ::
  "(display_request \<Rightarrow> nat option) \<Rightarrow> (string option \<Rightarrow> nat option) \<Rightarrow> device list option \<Rightarrow> page \<Rightarrow> page" where
  "capture_all ask user_media devices p =
     (let r = capture_screen ask; q = display_done r (resolve Display (startShare p))
      in if r = Some 0 then
           loopback_done (capture_loopback user_media devices) [next_track p] (resolve (Loopback [next_track p]) q)
         else q)"

text \<open>The virtual source that the host sets up is recognised by the name it is given.\<close>

lemma computer_sound_recognised:
  "is_loopback_device \<lparr>dev_kind = ''audioinput'', dev_label = ''Computer Sound'', dev_id = i\<rparr>"
  "last (load_cmd m) = ''source_properties=device.description='' @ [CHR 0x22] @ ''Computer Sound'' @ [CHR 0x22]"
proof -
  have "list_ex (\<lambda>s. contains s (map lower_char ''Computer Sound'')) loopback_labels" by code_simp
  then show "is_loopback_device \<lparr>dev_kind = ''audioinput'', dev_label = ''Computer Sound'', dev_id = i\<rparr>"
    by (simp add: is_loopback_device_def)
qed (simp add: load_cmd_def)

text \<open>With the source of the host among the devices the sound is never taken from the default device.\<close>

lemma loopback_found:
  assumes "\<lparr>dev_kind = ''audioinput'', dev_label = ''Computer Sound'', dev_id = i\<rparr> \<in> set ds"
  shows "\<exists>d \<in> set ds. is_loopback_device d \<and> loopback_request (Some ds) = Some (dev_id d)"
proof -
  obtain d where d: "find is_loopback_device ds = Some d"
    using assms computer_sound_recognised(1) [of i] by (cases "find is_loopback_device ds") (auto simp: find_None_iff)
  then have "d \<in> set ds \<and> is_loopback_device d" by (auto simp: find_Some_iff)
  with d show ?thesis by (auto simp: loopback_request_def)
qed

text \<open>
  The page after a capture of one track of sound.
\<close>

lemma loopback_one:
  "activeStream (loopback_done (Some 1) vs p) = Some (vs @ [next_track p])" "micStream (loopback_done (Some 1) vs p) = micStream p"
  "kind (tracks (loopback_done (Some 1) vs p) (next_track p)) = Audio"
  "live (tracks (loopback_done (Some 1) vs p) (next_track p))"
  "enabled (tracks (loopback_done (Some 1) vs p) (next_track p)) \<longleftrightarrow> \<not> isSoundMuted p"
  by (simp_all add: loopback_done_def case_prod_beta new_tracks_fields)

lemma mic_off_nothing:
  assumes "micStream p = None"
  shows "activeStream (setMicEnabled False p) = activeStream p" "tracks (setMicEnabled False p) = tracks p" "isMicMuted (setMicEnabled False p)"
  using assms by (simp_all add: setMicEnabled_def report_mic_def Let_def)

text \<open>
  Without such a device the default input, mostly the microphone, is broadcast as the sound of
  the computer. The button of the microphone does not reach it: after switching the microphone
  off its track is live and enabled in the broadcast stream.
\<close>

lemma default_input_as_sound:
  assumes "\<forall>d \<in> set ds. \<not> is_loopback_device d" "capture_screen ask = Some 0" "user_media None = Some 1"
    and "micStream p = None" "\<not> isSoundMuted p"
  defines "q \<equiv> setMicEnabled False (capture_all ask user_media (Some ds) p)"
  shows "activeStream q = Some [next_track p, Suc (next_track p)] \<and> isMicMuted q \<and>
    kind (tracks q (Suc (next_track p))) = Audio \<and> live (tracks q (Suc (next_track p))) \<and> enabled (tracks q (Suc (next_track p)))"
proof -
  have "find is_loopback_device ds = None" using assms(1) by (simp add: find_None_iff)
  then have l: "capture_loopback user_media (Some ds) = Some 1"
    using assms(3) by (simp add: capture_loopback_def loopback_request_def)
  let ?q = "resolve (Loopback [next_track p]) (display_done (Some 0) (resolve Display (startShare p)))"
  have n: "next_track ?q = Suc (next_track p)"
    by (simp add: display_done_def case_prod_beta new_tracks_fields)
  have c: "capture_all ask user_media (Some ds) p = loopback_done (Some 1) [next_track p] ?q"
    by (simp add: capture_all_def assms(2) l Let_def)
  have m: "micStream (loopback_done (Some 1) [next_track p] ?q) = None"
    using assms(4) by (simp only: loopback_one(2)) simp
  show ?thesis
    unfolding q_def c mic_off_nothing [OF m] using loopback_one [of "[next_track p]" ?q] assms(5) unfolding n by simp
qed

section \<open>The frozen picture\<close>

text \<open>
  What the browser can do with the canvas: give a context and draw, capture a stream, read the
  picture back. An exception in any of them ends the freezing.
\<close>

datatype canvas_result = Works | Raises | Missing

definition freeze_of :: "bool \<Rightarrow> canvas_result \<Rightarrow> bool \<Rightarrow> freeze" where
  "freeze_of draws capture reads_back =
     (if \<not> draws then FreezeError
      else case capture of
          Missing \<Rightarrow> NoCapture
        | Raises \<Rightarrow> FreezeError
        | Works \<Rightarrow> if reads_back then Frozen else FreezeErrorLate)"

text \<open>
  Whatever the canvas does, a pause of a broadcast page stops the live picture: the video track is
  replaced by a frozen one or disabled.
\<close>

lemma pause_hides_screen:
  assumes "activeStream p = Some s" "of_kind p Video s = v # vs" "\<not> isPaused p"
  shows "isPaused (togglePause (freeze_of draws cap reads_back) p) \<and>
    (frozenVideoTrack (togglePause (freeze_of draws cap reads_back) p) = Some (next_track p) \<and>
       freeze_of draws cap reads_back = Frozen \<or>
     \<not> enabled (tracks (togglePause (freeze_of draws cap reads_back) p) v))"
proof -
  have "filter (\<lambda>t. kind (tracks p t) = Video) s = v # vs" using assms(2) by (simp add: of_kind_def)
  then show ?thesis
    using assms(1,3)
    by (cases "freeze_of draws cap reads_back")
       (simp_all add: togglePause_def freeze_frame_def new_tracks_def Let_def set_enabled_def of_kind_def
         updateHostBadge_def post_report_def replace_video_def)
qed

end
