(* ===== verification/Bridge_Threads.thy ===== *)
theory Bridge_Threads
  imports Bridge_Server
begin

text \<open>
  The slot of the next action between threads. Every request has a thread of its own and the
  toolbar sets actions in the main thread, without a lock: get_pending_action reads the slot,
  then empties it, and the other threads may run in between. A schedule is a list of the atomic
  steps; the theory Bridge_Server has the runs in which each request is one step.
\<close>

section \<open>Atomic steps\<close>

datatype atom = PutAtom string | ReadAtom nat | ClearAtom nat

text \<open>The slot, what each poll that is under way has read, and the answers given.\<close>

record threads =
  slot_value :: "string option"
  reading :: "(nat \<times> string option) list"
  given_answers :: "string option list"

definition threads_of :: "bridge \<Rightarrow> threads" where
  "threads_of b = \<lparr>slot_value = pending_action b, reading = [], given_answers = []\<rparr>"

text \<open>action = pending_action\<close>

definition read_slot :: "nat \<Rightarrow> threads \<Rightarrow> threads" where
  "read_slot i s = s\<lparr>reading := (i, slot_value s) # reading s\<rparr>"

text \<open>pending_action = None, and the return of what was read\<close>

definition clear_slot :: "nat \<Rightarrow> threads \<Rightarrow> threads" where
  "clear_slot i s =
     s\<lparr>slot_value := None, given_answers := given_answers s @ [the (map_of (reading s) i)],
       reading := filter (\<lambda>(j, _). j \<noteq> i) (reading s)\<rparr>"

definition put_slot :: "string \<Rightarrow> threads \<Rightarrow> threads" where
  "put_slot a s = s\<lparr>slot_value := Some a\<rparr>"

definition atom_step :: "atom \<Rightarrow> threads \<Rightarrow> threads" where
  "atom_step e s = (case e of PutAtom a \<Rightarrow> put_slot a s | ReadAtom i \<Rightarrow> read_slot i s | ClearAtom i \<Rightarrow> clear_slot i s)"

text \<open>
  A thread reads once and then clears. Unless polls overlap, one begins only when none is under
  way, as long as each is answered before the page sends the next, 300 milliseconds later.
\<close>

definition atom_possible :: "bool \<Rightarrow> atom \<Rightarrow> threads \<Rightarrow> bool" where
  "atom_possible overlap e s =
     (case e of
        PutAtom a \<Rightarrow> True
      | ReadAtom i \<Rightarrow> if overlap then i \<notin> fst ` set (reading s) else reading s = []
      | ClearAtom i \<Rightarrow> i \<in> fst ` set (reading s))"

inductive atom_run :: "bool \<Rightarrow> threads \<Rightarrow> atom list \<Rightarrow> threads \<Rightarrow> bool" for overlap s where
  none: "atom_run overlap s [] s"
| snoc: "atom_run overlap s es t \<Longrightarrow> atom_possible overlap e t \<Longrightarrow> atom_run overlap s (es @ [e]) (atom_step e t)"

inductive_cases atom_run_snocE: "atom_run overlap s (es @ [e]) t"

section \<open>Polls that nothing interrupts\<close>

text \<open>Then a poll is the step of the bridge.\<close>

lemma poll_atomic:
  assumes "reading s = []" "slot_value s = pending_action b"
  shows "atom_step (ClearAtom i) (atom_step (ReadAtom i) s) =
    s\<lparr>slot_value := pending_action (snd (get_pending_action b)), given_answers := given_answers s @ [fst (get_pending_action b)]\<rparr>"
  using assms by (simp add: atom_step_def read_slot_def clear_slot_def get_pending_action_def)

fun atoms_of :: "string slot_op list \<Rightarrow> atom list" where
  "atoms_of [] = []"
| "atoms_of (Put a # ops) = PutAtom a # atoms_of ops"
| "atoms_of (Take # ops) = ReadAtom 0 # ClearAtom 0 # atoms_of ops"

lemma atoms_answers:
  "reading s = [] \<Longrightarrow> given_answers (fold atom_step (atoms_of ops) s) = given_answers s @ slot_answers (slot_value s) ops"
proof (induction ops arbitrary: s rule: atoms_of.induct)
  case (3 ops)
  let ?s = "s\<lparr>slot_value := None, given_answers := given_answers s @ [slot_value s]\<rparr>"
  have "atom_step (ClearAtom 0) (atom_step (ReadAtom 0) s) = ?s"
    using 3(2) by (simp add: atom_step_def read_slot_def clear_slot_def)
  with 3(1) [of ?s] 3(2) show ?case by simp
qed (simp_all add: atom_step_def put_slot_def)

section \<open>Answers and settings\<close>

definition of_slot :: "string \<Rightarrow> string option \<Rightarrow> nat" where
  "of_slot a v = (if v = Some a then 1 else 0)"

text \<open>Without an overlap an action is answered at most as often as it was set.\<close>

lemma answers_inv:
  assumes "atom_run False (threads_of b) es t"
  shows "(\<forall>a. count_list (given_answers t) (Some a) + of_slot a (slot_value t) \<le>
           count_list es (PutAtom a) + of_slot a (pending_action b)) \<and>
    (\<forall>i v a. (i, v) \<in> set (reading t) \<longrightarrow>
       count_list (given_answers t) (Some a) + of_slot a v \<le> count_list es (PutAtom a) + of_slot a (pending_action b)) \<and>
    length (reading t) \<le> 1"
  using assms
proof (induction rule: atom_run.induct)
  case none
  show ?case by (simp add: threads_of_def)
next
  case (snoc es t e)
  show ?case
  proof (cases e)
    case (PutAtom x)
    have c: "count_list (given_answers t) (Some a) \<le> count_list es (PutAtom a) + of_slot a (pending_action b)" for a
      using snoc.IH by (meson add_leD1)
    have "count_list (given_answers t) (Some a) + of_slot a (Some x) \<le>
        count_list (es @ [PutAtom x]) (PutAtom a) + of_slot a (pending_action b)" for a
      using c [of a] by (cases "x = a") (simp_all add: of_slot_def)
    moreover have "count_list (given_answers t) (Some a) + of_slot a v \<le>
        count_list (es @ [PutAtom x]) (PutAtom a) + of_slot a (pending_action b)" if "(i, v) \<in> set (reading t)" for i v a
      using snoc.IH that by (auto intro: le_SucI)
    moreover have "length (reading t) \<le> 1" using snoc.IH by simp
    ultimately show ?thesis
      unfolding PutAtom atom_step_def put_slot_def by (intro conjI allI impI) simp_all
  next
    case (ReadAtom i)
    then show ?thesis using snoc by (simp add: atom_step_def read_slot_def atom_possible_def)
  next
    case (ClearAtom i)
    then obtain v where v: "reading t = [(i, v)]"
      using snoc.IH snoc.hyps(2) by (cases "reading t") (auto simp: atom_possible_def)
    then have c: "count_list (given_answers t) (Some a) + of_slot a v \<le> count_list es (PutAtom a) + of_slot a (pending_action b)" for a
      using snoc.IH by auto
    have o: "count_list (given_answers t @ [v]) (Some a) = count_list (given_answers t) (Some a) + of_slot a v" for a
      by (simp add: of_slot_def)
    have n: "of_slot a None = 0" "count_list (es @ [ClearAtom i]) (PutAtom a) = count_list es (PutAtom a)" for a
      by (simp_all add: of_slot_def)
    show ?thesis
      using c by (simp add: ClearAtom v atom_step_def clear_slot_def o n del: count_list_append)
  qed
qed

text \<open>Every answer, with overlaps as well, is an action that was set, or that was there before.\<close>

lemma answers_set:
  assumes "atom_run overlap (threads_of b) es t"
  shows "(\<forall>a. Some a \<in> set (given_answers t) \<union> {slot_value t} \<union> snd ` set (reading t) \<longrightarrow>
    PutAtom a \<in> set es \<or> pending_action b = Some a)"
  using assms
proof (induction rule: atom_run.induct)
  case none
  show ?case by (simp add: threads_of_def)
next
  case (snoc es t e)
  show ?case
  proof (cases e)
    case (ClearAtom i)
    then obtain v where "map_of (reading t) i = Some v" "(i, v) \<in> set (reading t)"
      using snoc.hyps(2) by (auto simp: atom_possible_def) (metis map_of_SomeD weak_map_of_SomeI)
    then show ?thesis using snoc.IH by (force simp: ClearAtom atom_step_def clear_slot_def)
  qed (use snoc.IH in \<open>force simp: atom_step_def put_slot_def read_slot_def\<close>)+
qed

text \<open>C7: The answers of the polls in any schedule of the threads: none is an action that was not set, and
  as long as polls do not overlap an action is answered at most as often as it was set, although
  the slot is read and emptied in two steps; where two polls overlap one setting is answered
  twice, so that the page toggles twice, and an action set between the two steps of a poll is lost.\<close>

theorem polls_between_threads:
  assumes "atom_run overlap (threads_of b) es t"
  shows "(\<forall>a. Some a \<in> set (given_answers t) \<longrightarrow> PutAtom a \<in> set es \<or> pending_action b = Some a) \<and>
    (\<not> overlap \<longrightarrow> count_list (given_answers t) (Some a) \<le> count_list es (PutAtom a) + of_slot a (pending_action b)) \<and>
    (overlap \<longrightarrow> reading t = [] \<longrightarrow>
      (\<exists>u. atom_run overlap (threads_of b) (es @ [PutAtom a, ReadAtom 1, ReadAtom 2, ClearAtom 1, ClearAtom 2]) u \<and>
        given_answers u = given_answers t @ [Some a, Some a])) \<and>
    (reading t = [] \<longrightarrow>
      (\<exists>u. atom_run overlap (threads_of b) (es @ [ReadAtom 1, PutAtom a, ClearAtom 1]) u \<and>
        given_answers u = given_answers t @ [slot_value t] \<and> slot_value u = None))"
proof (intro conjI impI)
  show "\<forall>a. Some a \<in> set (given_answers t) \<longrightarrow> PutAtom a \<in> set es \<or> pending_action b = Some a"
    using answers_set [OF assms] by blast
  show "count_list (given_answers t) (Some a) \<le> count_list es (PutAtom a) + of_slot a (pending_action b)" if "\<not> overlap"
    using answers_inv [of b es t] assms that by (simp) (meson add_leD1)
next
  note snoc = atom_run.snoc [where overlap = overlap and s = "threads_of b"]
  let ?s = "\<lambda>e t. atom_step e t"
  assume r: "reading t = []"
  let ?u = "?s (ClearAtom 1) (?s (PutAtom a) (?s (ReadAtom 1) t))"
  have "atom_run overlap (threads_of b) (((es @ [ReadAtom 1]) @ [PutAtom a]) @ [ClearAtom 1]) ?u"
    by (intro snoc assms) (simp_all add: atom_possible_def r atom_step_def read_slot_def put_slot_def)
  moreover have "given_answers ?u = given_answers t @ [slot_value t]" "slot_value ?u = None"
    by (simp_all add: atom_step_def read_slot_def put_slot_def clear_slot_def r)
  ultimately show "\<exists>u. atom_run overlap (threads_of b) (es @ [ReadAtom 1, PutAtom a, ClearAtom 1]) u \<and>
      given_answers u = given_answers t @ [slot_value t] \<and> slot_value u = None" by auto
  assume o: "overlap"
  let ?v = "?s (ClearAtom 2) (?s (ClearAtom 1) (?s (ReadAtom 2) (?s (ReadAtom 1) (?s (PutAtom a) t))))"
  have "atom_run overlap (threads_of b) (((((es @ [PutAtom a]) @ [ReadAtom 1]) @ [ReadAtom 2]) @ [ClearAtom 1]) @ [ClearAtom 2]) ?v"
    by (intro snoc assms) (simp_all add: atom_possible_def r o atom_step_def read_slot_def put_slot_def clear_slot_def)
  moreover have "given_answers ?v = given_answers t @ [Some a, Some a]"
    by (simp add: atom_step_def read_slot_def put_slot_def clear_slot_def r)
  ultimately show "\<exists>u. atom_run overlap (threads_of b) (es @ [PutAtom a, ReadAtom 1, ReadAtom 2, ClearAtom 1, ClearAtom 2]) u \<and>
      given_answers u = given_answers t @ [Some a, Some a]" by auto
qed

theorem polls_between_threads_witness:
  "\<exists>u. atom_run True (threads_of initial_bridge) [PutAtom ''toggle_pause'', ReadAtom 1, ReadAtom 2, ClearAtom 1, ClearAtom 2] u \<and>
    given_answers u = [Some ''toggle_pause'', Some ''toggle_pause'']"
  using polls_between_threads [OF atom_run.none, where b = initial_bridge and a = "''toggle_pause''" and overlap = True]
  by (simp add: threads_of_def)

end
