(* ===== verification/Spec2Isabelle.thy ===== *)
theory Spec2Isabelle
  imports Host_Run Join_Link Signalling Capture Bridge_Threads
begin

text \<open>
  This library models the host side of ScreenShare, the Python programs that share the screen of
  a machine with the viewers of a room, and proves what it computes and how its parts work
  together. All files named below are under src/.

  The program. control_server.py starts everything: it frees the ports, finds the address of
  the machine (system_util.py), sets up the audio devices, starts the Go server that carries the
  signalling, starts the control bridge (bridge_server.py) in a thread, opens a hidden browser on
  the room, and shows the toolbar (gui_overlay.py). The browser page is the one that
  ui_failsafe.py writes as a script: it captures the screen, serves the viewers through peer
  connections, asks the bridge every 300 milliseconds for the action of a toolbar button, and
  posts its state back to the bridge, which hands it to the toolbar. The toolbar also shows the
  link of the room as a QR code, made by qr_util.py when the qrcode package is missing. Before the
  server starts, go_builder.py builds it when its sources are newer, ui_builder.py and
  ui_repair.py build the web client or write the fallback one, and process_util.py starts the
  server and waits until it answers.

  The theories, each on one part.

  Prelude: bytes as 8 bit words, Python's range, the errors of Python that the code can raise,
  lemmas on loops that change a list in place. Py_Str: the string methods of Python.

  Galois, Reed_Solomon, Qr_Data, Qr_Matrix, Qr_Symbol, Qr_Pixmap: qr_util.py, in the order of its
  lines. The tables and the product of the field with 256 elements (a field; the product is
  that of polynomials modulo the field polynomial; interface byte_field, interpreted for
  gf_mul), the generator polynomial and the check symbols (linear; the division is a systematic
  encoder for a leading one first, and the call is not such), the bit stream (decoding it gives
  back the text) and the version, the matrix (canvas of function patterns, placement, mask,
  format bits), what the finished symbol shows at every position, and the painted picture.
  Every loop of the code is a fold over the range it runs through, so no fuel is needed.

  System_Env and Audio: system_util.py. The environment for child programs (what is removed,
  kept and added; idempotence), the choice of the address, the processes that are ended, the
  pactl commands that mute microphones, set up and clean up the audio source and follow the
  volume, and the loopback devices that are enabled on Windows. The output of a program is an
  argument, None for an exception, and the commands that are run for their effect are the result.

  Bridge_Server: bridge_server.py. The shared dict (dict.update on any JSON value), the slot of
  the next action (interface slot, interpreted for the two functions of the code), and the
  requests with their headers and answers. The parsing of a body is the argument loads.
  Bridge_Threads: the slot between threads, where a poll reads and empties it in two steps: which
  answers any schedule of these steps can give, with polls that overlap and without.

  Gui_Overlay: the handlers and the rendering of the toolbar, the events of its user, and an
  invariant of all its runs. Widgets are their captions, the styles that change, and flags.

  Failsafe_Page and Failsafe_Host: the host mode of the script in ui_failsafe.py, one definition
  per function, cut at its await points, with the media tracks and the senders of the peer
  connections as state; the step relation page_reach over the events of the browser, the
  viewers and the bridge; an invariant (what viewers are sent in and out of a pause), what
  stopping releases, what keeps a connection, when the overlay is shown, what the picture of a pause
  is taken from, and runs in which captures leak or reports are wrong. Capture: what the page asks the browser for, the three
  requests for the screen, the device for the sound of the computer, and how a freeze can end.

  Host_System: bridge, toolbar and page together. The interface shared_flag states what both
  processes owe each other about a flag that both keep, its lemmas are proved once, and it is
  interpreted for the sound and for the microphone flag: once no action and no report is under
  way both agree, provided no button is pressed while an action is waiting; and a run in which
  two quick presses make them disagree for good.

  Failsafe_Viewer: two more parts of the script. The candidates of a session, a step relation
  ice_reach with a conservation invariant (none is lost or given twice), and the viewer mode: the
  three outputs of sound, the sessions it keeps over reconnections, the end of a broadcast, and
  the button of the full screen. Page_Link: the parameters the script reads from its link.

  Signalling: both sides of a session together, with the server between them as two queues in
  order: the handlers of all messages, cut at their awaits, and the events of each connection.
  Every step refines one of a lossless channel for the candidates, and from every reachable state
  the exchange ends, after at most session_work steps, with both sides complete unless an
  exception ended the offer or the answer.

  Host_Files: the file system the build works on: paths as lists of names, nodes, links and
  junctions, and the calls of os and shutil as steps on a disk with an optional error. The
  interface growth (a property that survives a new node) and its extension growth_and_writes
  (and the rewriting of a file) prove once that makedirs, write, copy and copytree keep such a
  property; they are interpreted for the well-formedness of the disk and for what it held before,
  in Ui_Repair for the places a repair may fill, in Ui_Builder for a built client. A path follows
  at most 40 links, the bound of Linux, and a copy goes down at most 4096 levels, the longest
  path there, so these bounds only cut off what the system refuses.

  Ui_Repair, Ui_Builder: ui_repair.py, ui_builder.py and the function of ui_failsafe.py that
  writes the fallback client: what removing, linking and repairing may touch, the import lines
  (resolving one gives the program back), that a build always ends with a client, and the
  percentages it shows.
  Progress_Bar: progress_bar.py, every line it prints. Go_Builder: go_builder.py, when the binary
  is rebuilt (equivalent to a comparison with the set of its inputs), the build, and the search
  for compilers and binaries. Process_Util: process_util.py, the log of a child, the call that
  starts the server, and the wait for it, a partial_function whose result is None where the loop
  does not end; it is proved to return when time passes, and within 30 passes where requests only
  fail, since each failed request sleeps. Browser_Launcher: browser_launcher.py, the search for a browser
  (equivalent to the first usable place of a flat list) and its command.

  Control_Server: the facade of control_server.py. start runs the definitions of the theories
  above in the order of the code on one record of what the machine answers, and stops where an
  exception or sys.exit stops it; cleanup is the list of its effects. What a session that starts
  leaves after its clean-up, and what a start that fails leaves. Host_Run: ScreenShareHostFacade.run,
  the start, any events of Host_System, and the clean-up, with the thread of the volume beside
  them in any schedule: the microphones of the machine follow the state of the bridge throughout,
  and a run leaves the default source and the microphones as it has to. Join_Link: the links such a
  start hands out, the QR card of the toolbar, and what the page takes each link for.

  Programs outside the repository (pactl, ip, netstat, the bundlers, the compiler, flatpak, the
  qrcode package, the browser's captures) are arguments: what they answer, or what they do to the
  disk. The witnesses instantiate them by concrete functions.

  Not modelled. The Go server, the Android application and the web client in TypeScript are other
  programs; of the server the theories use that it relays the messages of a session in order and
  sends the two session messages first. The text of the log, the fixed layout, fonts, colours and
  shadows of the toolbar, the HTML and its styles, and the content of session descriptions have no
  behaviour of their own here. Sockets are input and output. A thread is the list of what it does,
  but for the bridge and the volume, whose threads are interleaved. The translation of line ends
  by Windows and server_builder.py, which only re-exports names, are left out. A signal of PySide6
  delivers the dict itself, so the toolbar renders the state at delivery; events before the start
  has returned are not part of a run.
\<close>

end
